theory Spec2Isabelle
  imports Complex_Main
begin

section \<open>Errors\<close>

text \<open>
  The Python exceptions the modelled code can raise.  \<open>Exception\<close> is the plain
  \<^verbatim>\<open>raise Exception(...)\<close> of the cubemap classes; \<open>ValueError\<close>,
  \<open>ZeroDivisionError\<close>, \<open>IndexError\<close> and \<open>AttributeError\<close> are raised by the
  interpreter and by the array library.
\<close>

datatype error = ValueError | ZeroDivisionError | IndexError | AttributeError | Exception

section \<open>misc.py: cmp_size\<close>

text \<open>
  \<^verbatim>\<open>
  def cmp_size(erp_size, block_size=32):
      v = np.floor(np.sqrt(erp_size[0] * erp_size[1] / 6))
      block_residual = v % block_size
      if block_residual < block_size/2:
          cubeface_res = v + (block_size - block_residual)
      else:
          cubeface_res = v - block_residual
      return int(cubeface_res * 2), int(cubeface_res * 3)
  \<close>
  The sizes and the block size are Python integers.  The square root of a negative
  product and the remainder modulo zero are NaN, which the final \<^verbatim>\<open>int(...)\<close>
  rejects with a ValueError; everywhere else \<open>v\<close> is an integral value and the
  arithmetic is that of the integers (the remainder takes the sign of the divisor in Python
  and in HOL alike).
\<close>

definition cmp_size :: "int \<times> int \<Rightarrow> int \<Rightarrow> error + (int \<times> int)" where
  "cmp_size erp_size block_size =
     (if fst erp_size * snd erp_size < 0 \<or> block_size = 0 then Inl ValueError
      else
        let v = \<lfloor>sqrt (real_of_int (fst erp_size * snd erp_size) / 6)\<rfloor>;
            block_residual = v mod block_size;
            cubeface_res =
              (if real_of_int block_residual < real_of_int block_size / 2
               then v + (block_size - block_residual)
               else v - block_residual)
        in Inr (cubeface_res * 2, cubeface_res * 3))"

section \<open>projections/coordinate\_conversion.py\<close>

text \<open>
  Coordinates are real numbers: the model is the code over exact real arithmetic.
  \<^verbatim>\<open>np.arctan2(y, x)\<close> is the angle of the point \<open>(x, y)\<close> in \<open>(-\<pi>, \<pi>]\<close>, with the value 0
  at the origin.
\<close>

definition arctan2 :: "real \<Rightarrow> real \<Rightarrow> real" where
  "arctan2 y x =
     (if 0 < x then arctan (y / x)
      else if x < 0 then (if 0 \<le> y then arctan (y / x) + pi else arctan (y / x) - pi)
      else if 0 < y then pi / 2
      else if y < 0 then - (pi / 2)
      else 0)"

definition cartesian_to_polar :: "real \<Rightarrow> real \<Rightarrow> real \<times> real" where
  "cartesian_to_polar y x =
     (let r = sqrt (y\<^sup>2 + x\<^sup>2);
          phi = arctan2 y x
      in (r, phi))"

definition polar_to_cartesian :: "real \<Rightarrow> real \<Rightarrow> real \<times> real" where
  "polar_to_cartesian r phi =
     (let y = r * sin phi;
          x = r * cos phi
      in (y, x))"

definition cartesian_to_spherical :: "real \<Rightarrow> real \<Rightarrow> real \<Rightarrow> real \<times> real \<times> real" where
  "cartesian_to_spherical x y z =
     (let r = sqrt (x\<^sup>2 + y\<^sup>2 + z\<^sup>2);
          theta = arccos (z / r);
          phi = arctan2 y x
      in (r, theta, phi))"

definition spherical_to_cartesian :: "real \<Rightarrow> real \<Rightarrow> real \<Rightarrow> real \<times> real \<times> real" where
  "spherical_to_cartesian r theta phi =
     (let x = r * sin theta * cos phi;
          y = r * sin theta * sin phi;
          z = r * cos theta
      in (x, y, z))"

section \<open>projections/EquirectangularProjection.py\<close>

text \<open>
  The projection object holds only its size \<open>(H, W)\<close>; the methods take it as their first
  argument.  \<^verbatim>\<open>np.where(phi_s > 0, phi_s - 2 * np.pi, phi_s)\<close> is the conditional.
\<close>

definition erp_to_sphere :: "int \<times> int \<Rightarrow> real \<Rightarrow> real \<Rightarrow> real \<times> real \<times> real" where
  "erp_to_sphere sz y x =
     (let phi_s = - ((x + 0.5) / real_of_int (snd sz)) * 2 * pi;
          theta_s = ((y + 0.5) / real_of_int (fst sz)) * pi
      in spherical_to_cartesian 1 theta_s phi_s)"

definition erp_from_sphere :: "int \<times> int \<Rightarrow> real \<times> real \<times> real \<Rightarrow> real \<times> real" where
  "erp_from_sphere sz s =
     (case s of (xs, ys, zs) \<Rightarrow>
        (case cartesian_to_spherical xs ys zs of (r, theta_s, phi0) \<Rightarrow>
           let phi_s = (if phi0 > 0 then phi0 - 2 * pi else phi0);
               y = (theta_s / pi) * real_of_int (fst sz) - 0.5;
               x = - (phi_s / (2 * pi)) * real_of_int (snd sz) - 0.5
           in (y, x)))"

section \<open>projections/CubemapProjection.py\<close>

text \<open>
  The 3D axis of a coordinate map is one of the characters \<open>x\<close>, \<open>y\<close>, \<open>z\<close>; the
  constructor of \<open>CoordMap\<close> rejects every other character, so the stored axis is a value of
  the enumeration \<open>axis\<close>.
\<close>

datatype axis = X | Y | Z

definition axis_of_char :: "char \<Rightarrow> axis option" where
  "axis_of_char c =
     (if c = CHR ''x'' then Some X
      else if c = CHR ''y'' then Some Y
      else if c = CHR ''z'' then Some Z
      else None)"

record CoordMap =
  interval_2d :: "real \<times> real"
  interval_3d :: "real \<times> real"
  axis_3d :: axis

definition CoordMap_init :: "real \<times> real \<Rightarrow> real \<times> real \<Rightarrow> char \<Rightarrow> error + CoordMap" where
  "CoordMap_init i2d i3d c =
     (case axis_of_char c of
        None \<Rightarrow> Inl Exception
      | Some a \<Rightarrow> Inr \<lparr>interval_2d = i2d, interval_3d = i3d, axis_3d = a\<rparr>)"

definition lerp :: "real \<Rightarrow> real \<Rightarrow> real \<Rightarrow> real \<Rightarrow> real \<Rightarrow> real" where
  "lerp val a1 b1 a2 b2 = (val - a1) * ((b2 - a2) / (b1 - a1)) + a2"

definition val3d_for_2d :: "CoordMap \<Rightarrow> real \<Rightarrow> real" where
  "val3d_for_2d m val2d =
     lerp val2d (fst (interval_2d m)) (snd (interval_2d m)) (fst (interval_3d m)) (snd (interval_3d m))"

definition val2d_for_3d :: "CoordMap \<Rightarrow> real \<Rightarrow> real" where
  "val2d_for_3d m val3d =
     lerp val3d (fst (interval_3d m)) (snd (interval_3d m)) (fst (interval_2d m)) (snd (interval_2d m))"

record Region =
  x_map :: CoordMap
  y_map :: CoordMap
  plane_axis_3d :: axis
  plane_val_3d :: real

text \<open>
  \<^verbatim>\<open>next(filter(...))\<close> takes the first axis of \<open>(x, y, z)\<close> that neither map uses; on an
  empty filter it would raise StopIteration, here the error \<open>Exception\<close>.
\<close>

definition Region_init :: "CoordMap \<Rightarrow> CoordMap \<Rightarrow> real \<Rightarrow> error + Region" where
  "Region_init xm ym pv =
     (if axis_3d xm = axis_3d ym then Inl Exception
      else
        (case filter (\<lambda>a. a \<notin> {axis_3d xm, axis_3d ym}) [X, Y, Z] of
           [] \<Rightarrow> Inl Exception
         | a # _ \<Rightarrow> Inr \<lparr>x_map = xm, y_map = ym, plane_axis_3d = a, plane_val_3d = pv\<rparr>))"

definition ax_to_idx :: "axis \<Rightarrow> nat" where
  "ax_to_idx ax = (case ax of X \<Rightarrow> 0 | Y \<Rightarrow> 1 | Z \<Rightarrow> 2)"

definition within_region_mask :: "Region \<Rightarrow> real \<Rightarrow> real \<Rightarrow> bool" where
  "within_region_mask reg y x \<longleftrightarrow>
     y \<ge> min (fst (interval_2d (y_map reg))) (snd (interval_2d (y_map reg))) \<and>
     y \<le> max (fst (interval_2d (y_map reg))) (snd (interval_2d (y_map reg))) \<and>
     x \<ge> min (fst (interval_2d (x_map reg))) (snd (interval_2d (x_map reg))) \<and>
     x \<le> max (fst (interval_2d (x_map reg))) (snd (interval_2d (x_map reg)))"

definition within_cubeface_mask :: "Region \<Rightarrow> real \<times> real \<times> real \<Rightarrow> bool" where
  "within_cubeface_mask reg s =
     (case s of (xs, ys, zs) \<Rightarrow>
        let plane_ax_idx = ax_to_idx (plane_axis_3d reg);
            other_ax_idxs = (ax_to_idx (axis_3d (x_map reg)), ax_to_idx (axis_3d (y_map reg)));
            vals = [xs, ys, zs];
            abs_vals = [\<bar>xs\<bar>, \<bar>ys\<bar>, \<bar>zs\<bar>];
            mask = (if sgn (plane_val_3d reg) > 0 then vals ! plane_ax_idx > 0
                    else vals ! plane_ax_idx < 0)
        in mask \<and> abs_vals ! plane_ax_idx > abs_vals ! fst other_ax_idxs
                \<and> abs_vals ! plane_ax_idx > abs_vals ! snd other_ax_idxs)"

text \<open>
  \<open>to_2d\<close> works on arrays of directions, here the list of the triples \<open>(xs, ys, zs)\<close>.
  It raises unless every element passes the cube-face mask, and otherwise computes each
  element by \<open>to_2d_elem\<close>: the ray is extended to the plane of the face and the two
  in-plane coordinates are mapped to the canvas.  The result pairs are
  \<open>(coords_2d[0], coords_2d[1])\<close>, that is \<open>(y, x)\<close>.
\<close>

definition to_2d_elem :: "Region \<Rightarrow> real \<times> real \<times> real \<Rightarrow> real \<times> real" where
  "to_2d_elem reg s =
     (case s of (xs, ys, zs) \<Rightarrow>
        (case cartesian_to_spherical xs ys zs of (r0, theta, phi) \<Rightarrow>
           let r = (case plane_axis_3d reg of
                      X \<Rightarrow> plane_val_3d reg / (sin theta * cos phi)
                    | Y \<Rightarrow> plane_val_3d reg / (sin theta * sin phi)
                    | Z \<Rightarrow> plane_val_3d reg / cos theta)
           in (case spherical_to_cartesian r theta phi of (xs', ys', zs') \<Rightarrow>
                 let coords_3d = [xs', ys', zs']
                 in (val2d_for_3d (y_map reg) (coords_3d ! ax_to_idx (axis_3d (y_map reg))),
                     val2d_for_3d (x_map reg) (coords_3d ! ax_to_idx (axis_3d (x_map reg)))))))"

definition to_2d :: "Region \<Rightarrow> (real \<times> real \<times> real) list \<Rightarrow> error + (real \<times> real) list" where
  "to_2d reg pts =
     (if \<not> list_all (within_cubeface_mask reg) pts then Inl Exception
      else Inr (map (to_2d_elem reg) pts))"

record CubemapProjection =
  canvas_size :: "int \<times> int"
  top_region :: Region
  left_region :: Region
  front_region :: Region
  right_region :: Region
  back_region :: Region
  bottom_region :: Region

text \<open>
  \<open>new_region\<close> is one \<^verbatim>\<open>Region(x_map=CoordMap(...), y_map=CoordMap(...), plane_val_3d=...)\<close>
  expression: the two coordinate maps are constructed first, then the region, and the first
  exception ends the construction.
\<close>

definition new_region ::
  "real \<times> real \<Rightarrow> real \<times> real \<Rightarrow> char \<Rightarrow> real \<times> real \<Rightarrow> real \<times> real \<Rightarrow> char \<Rightarrow> real
     \<Rightarrow> error + Region" where
  "new_region x2d x3d xc y2d y3d yc pv =
     (case CoordMap_init x2d x3d xc of
        Inl e \<Rightarrow> Inl e
      | Inr xm \<Rightarrow>
          (case CoordMap_init y2d y3d yc of
             Inl e \<Rightarrow> Inl e
           | Inr ym \<Rightarrow> Region_init xm ym pv))"

definition CubemapProjection_init :: "int \<times> int \<Rightarrow> error + CubemapProjection" where
  "CubemapProjection_init sz =
     (case new_region (0, 1/3) (-1, 1) CHR ''x'' (0.5, 1) (-1, 1) CHR ''y'' 1 of
        Inl e \<Rightarrow> Inl e
      | Inr top_r \<Rightarrow>
     (case new_region (0, 1/3) (1, -1) CHR ''x'' (0, 0.5) (1, -1) CHR ''z'' (-1) of
        Inl e \<Rightarrow> Inl e
      | Inr left_r \<Rightarrow>
     (case new_region (1/3, 2/3) (-1, 1) CHR ''y'' (0, 0.5) (1, -1) CHR ''z'' (-1) of
        Inl e \<Rightarrow> Inl e
      | Inr front_r \<Rightarrow>
     (case new_region (2/3, 1) (-1, 1) CHR ''x'' (0, 0.5) (1, -1) CHR ''z'' 1 of
        Inl e \<Rightarrow> Inl e
      | Inr right_r \<Rightarrow>
     (case new_region (1/3, 2/3) (1, -1) CHR ''z'' (0.5, 1) (-1, 1) CHR ''y'' 1 of
        Inl e \<Rightarrow> Inl e
      | Inr back_r \<Rightarrow>
     (case new_region (2/3, 1) (1, -1) CHR ''x'' (0.5, 1) (-1, 1) CHR ''y'' (-1) of
        Inl e \<Rightarrow> Inl e
      | Inr bottom_r \<Rightarrow>
          Inr \<lparr>canvas_size = sz, top_region = top_r, left_region = left_r, front_region = front_r,
               right_region = right_r, back_region = back_r, bottom_region = bottom_r\<rparr>))))))"

definition regions :: "CubemapProjection \<Rightarrow> Region list" where
  "regions p = [top_region p, left_region p, front_region p,
                right_region p, back_region p, bottom_region p]"


fun put_mask :: "bool list \<Rightarrow> 'a list \<Rightarrow> 'a list \<Rightarrow> 'a list" where
  "put_mask (True # ms) (v # vs) (c # cs) = v # put_mask ms vs cs"
| "put_mask (False # ms) vs (c # cs) = c # put_mask ms vs cs"
| "put_mask ms vs cs = cs"

definition region_pass ::
  "Region \<Rightarrow> (real \<times> real \<times> real) list \<Rightarrow> (real option \<times> real option) list
     \<Rightarrow> error + (real option \<times> real option) list" where
  "region_pass reg pts coords_2d =
     (let mask = map (within_cubeface_mask reg) pts
      in (case to_2d reg (map fst (filter snd (zip pts mask))) of
            Inl e \<Rightarrow> Inl e
          | Inr vals \<Rightarrow>
              if length vals \<noteq> length (filter (\<lambda>b. b) mask) then Inl ValueError
              else Inr (put_mask mask (map (\<lambda>(y, x). (Some y, Some x)) vals) coords_2d)))"

fun from_sphere_loop ::
  "Region list \<Rightarrow> (real \<times> real \<times> real) list \<Rightarrow> (real option \<times> real option) list
     \<Rightarrow> error + (real option \<times> real option) list" where
  "from_sphere_loop [] pts coords_2d = Inr coords_2d"
| "from_sphere_loop (reg # regs) pts coords_2d =
     (case region_pass reg pts coords_2d of
        Inl e \<Rightarrow> Inl e
      | Inr coords_2d' \<Rightarrow> from_sphere_loop regs pts coords_2d')"


text \<open>
  \<open>mk_region\<close> is the record that a \<^verbatim>\<open>Region(...)\<close> expression evaluates to when both
  axes are valid and different; \<open>pa\<close> is the plane axis.
\<close>

definition mk_region :: "real \<times> real \<Rightarrow> real \<times> real \<Rightarrow> axis \<Rightarrow> real \<times> real \<Rightarrow> real \<times> real \<Rightarrow> axis \<Rightarrow> axis \<Rightarrow> real \<Rightarrow> Region" where
  "mk_region x2 x3 xa y2 y3 ya pa pv =
     \<lparr>x_map = \<lparr>interval_2d = x2, interval_3d = x3, axis_3d = xa\<rparr>,
      y_map = \<lparr>interval_2d = y2, interval_3d = y3, axis_3d = ya\<rparr>,
      plane_axis_3d = pa, plane_val_3d = pv\<rparr>"


section \<open>var/ViewportAdaptiveResampler.py: the rotation matrix\<close>

text \<open>
  A matrix is the list of its rows, a vector a list; \<open>dot_mv\<close> and \<open>dot_mm\<close> are
  \<^verbatim>\<open>ndarray.dot\<close> for a matrix with a vector and with a matrix.
\<close>

definition dot_vec :: "real list \<Rightarrow> real list \<Rightarrow> real" where
  "dot_vec a b = sum_list (map2 (*) a b)"

definition dot_mv :: "real list list \<Rightarrow> real list \<Rightarrow> real list" where
  "dot_mv A v = map (\<lambda>row. dot_vec row v) A"

definition dot_mm :: "real list list \<Rightarrow> real list list \<Rightarrow> real list list" where
  "dot_mm A B = map (\<lambda>row. map (\<lambda>col. dot_vec row col) (transpose B)) A"

definition rotation_matrix :: "real \<Rightarrow> real \<Rightarrow> real \<Rightarrow> real list list" where
  "rotation_matrix x y z =
     (let gamma = pi - arctan2 y x;
          rotation_matrix_z = [[cos gamma, - sin gamma, 0],
                               [sin gamma, cos gamma, 0],
                               [0, 0, 1]];
          other_v = dot_mv rotation_matrix_z [x, y, z];
          beta = - arctan2 (other_v ! 2) \<bar>other_v ! 0\<bar>;
          rotation_matrix_y = [[cos beta, 0, sin beta],
                               [0, 1, 0],
                               [- sin beta, 0, cos beta]]
      in dot_mm rotation_matrix_y rotation_matrix_z)"

definition identity3 :: "real list list" where
  "identity3 = [[1, 0, 0], [0, 1, 0], [0, 0, 1]]"

definition orthogonal3 :: "real list list \<Rightarrow> bool" where
  "orthogonal3 R \<longleftrightarrow> dot_mm R (transpose R) = identity3 \<and> dot_mm (transpose R) R = identity3"

section \<open>fsmr/fsmr.py\<close>

text \<open>
  Arrays of floating-point numbers are lists of reals, and the arithmetic is exact.  The one
  place where the code leaves the finite numbers on finite inputs is a division by zero:
  the elementwise array division gives an infinity or NaN there (and raises nothing), while
  the scalar division in the compiled loop raises ZeroDivisionError.  The values of the
  objective function are therefore \<open>fval\<close>: a finite real, an infinity or NaN.
\<close>

datatype fval = Fin real | PInf | NInf | NaN

definition fdiv :: "real \<Rightarrow> real \<Rightarrow> fval" where
  "fdiv a b =
     (if b \<noteq> 0 then Fin (a / b)
      else if a = 0 then NaN
      else if 0 < a then PInf
      else NInf)"

fun fmul :: "fval \<Rightarrow> fval \<Rightarrow> fval" where
  "fmul NaN v = NaN"
| "fmul v NaN = NaN"
| "fmul (Fin a) (Fin b) = Fin (a * b)"
| "fmul (Fin a) PInf = (if 0 < a then PInf else if a < 0 then NInf else NaN)"
| "fmul (Fin a) NInf = (if 0 < a then NInf else if a < 0 then PInf else NaN)"
| "fmul PInf (Fin b) = (if 0 < b then PInf else if b < 0 then NInf else NaN)"
| "fmul NInf (Fin b) = (if 0 < b then NInf else if b < 0 then PInf else NaN)"
| "fmul PInf PInf = PInf"
| "fmul PInf NInf = NInf"
| "fmul NInf PInf = NInf"
| "fmul NInf NInf = PInf"

fun fgt :: "fval \<Rightarrow> fval \<Rightarrow> bool" where
  "fgt (Fin a) (Fin b) = (b < a)"
| "fgt (Fin a) NInf = True"
| "fgt PInf (Fin b) = True"
| "fgt PInf NInf = True"
| "fgt v w = False"

text \<open>
  \<^verbatim>\<open>np.power(sigma, e)\<close> for a real base and a real exponent: 1 for the exponent 0, the real
  power for a positive base, and for a negative base a number only when the exponent is
  integral.
\<close>

definition np_power :: "real \<Rightarrow> real \<Rightarrow> fval" where
  "np_power b e =
     (if e = 0 then Fin 1
      else if 0 < b then Fin (b powr e)
      else if b = 0 then (if 0 < e then Fin 0 else PInf)
      else if e = real_of_int \<lfloor>e\<rfloor>
           then (if 0 \<le> e then Fin (b ^ nat \<lfloor>e\<rfloor>) else Fin (1 / b ^ nat (- \<lfloor>e\<rfloor>)))
           else NaN)"

text \<open>
  Broadcasting of two one-dimensional arrays: equal lengths combine elementwise, an array of
  length one is repeated, every other pair of lengths is a ValueError.
\<close>

definition bc_ok :: "nat \<Rightarrow> nat \<Rightarrow> bool" where
  "bc_ok n m \<longleftrightarrow> n = m \<or> n = 1 \<or> m = 1"

definition bc_map2 :: "('a \<Rightarrow> 'b \<Rightarrow> 'c) \<Rightarrow> 'a list \<Rightarrow> 'b list \<Rightarrow> 'c list" where
  "bc_map2 f xs ys =
     (if length xs = length ys then map2 f xs ys
      else if length xs = 1 then map (f (hd xs)) ys
      else map (\<lambda>a. f a (hd ys)) xs)"

definition broadcast :: "('a \<Rightarrow> 'b \<Rightarrow> 'c) \<Rightarrow> 'a list \<Rightarrow> 'b list \<Rightarrow> error + 'c list" where
  "broadcast f xs ys =
     (if bc_ok (length xs) (length ys) then Inr (bc_map2 f xs ys) else Inl ValueError)"

text \<open>
  \<^verbatim>\<open>k, l = np.mgrid[:K, :K]\<close>, both flattened: the index pairs \<open>(k, l)\<close> below \<open>K\<close> in
  row-major order, none for \<open>K = 0\<close>.  A negative \<open>K\<close> asks for an array of negative
  dimensions, which is a ValueError.
\<close>

definition index_pairs :: "nat \<Rightarrow> (nat \<times> nat) list" where
  "index_pairs n = concat (map (\<lambda>k. map (\<lambda>l. (k, l)) [0..<n]) [0..<n])"

definition mgrid :: "int \<Rightarrow> error + (nat \<times> nat) list" where
  "mgrid K = (if K < 0 then Inl ValueError else Inr (index_pairs (nat K)))"

text \<open>
  The table \<open>weights\<close> of \<open>dct_basis_dict\<close>, indexed by
  \<^verbatim>\<open>(k == 0).astype(int), (l == 0).astype(int)\<close>.  The dictionary is a two-dimensional
  array: the number of its columns and the list of its rows.  \<^verbatim>\<open>1 / transform_length\<close>
  divides Python integers and raises for zero; it comes before the index grid, and the
  product of the two cosine arrays, where the mesh coordinates are broadcast, comes after.
\<close>

definition weights :: "real \<Rightarrow> nat \<Rightarrow> nat \<Rightarrow> real" where
  "weights K i j =
     (if i = 0 \<and> j = 0 then 1 / K
      else if i = 1 \<and> j = 1 then 2 / K
      else sqrt 2 / K)"

definition dct_basis_dict :: "real list \<Rightarrow> real list \<Rightarrow> int \<Rightarrow> error + (nat \<times> real list list)" where
  "dct_basis_dict x y transform_length =
     (if transform_length = 0 then Inl ZeroDivisionError
      else
        (case mgrid transform_length of
           Inl e \<Rightarrow> Inl e
         | Inr kl \<Rightarrow>
             if \<not> bc_ok (length y) (length x) then Inl ValueError
             else
               let K = real_of_int transform_length
               in Inr (length (bc_map2 (\<lambda>yn xn. yn) y x),
                       map (\<lambda>(k, l).
                              bc_map2 (\<lambda>yn xn.
                                 cos ((pi / K) * (yn - 0.5) * real k)
                                   * cos ((pi / K) * (xn - 0.5) * real l)
                                   * weights K (if k = 0 then 1 else 0) (if l = 0 then 1 else 0))
                                y x)
                           kl)))"

definition dct_frequency_weighting :: "int \<Rightarrow> real \<Rightarrow> error + fval list" where
  "dct_frequency_weighting transform_length sigma =
     (case mgrid transform_length of
        Inl e \<Rightarrow> Inl e
      | Inr kl \<Rightarrow>
          Inr (map (\<lambda>(k, l). np_power sigma (sqrt ((real k)\<^sup>2 + (real l)\<^sup>2))) kl))"

text \<open>
  \<^verbatim>\<open>np.argmax\<close>: the first index of the largest element, the first NaN counting as the
  largest; an empty array is a ValueError.
\<close>

fun argmax_from :: "fval list \<Rightarrow> nat \<Rightarrow> fval \<Rightarrow> nat \<Rightarrow> nat" where
  "argmax_from [] idx max_value max_idx = max_idx"
| "argmax_from (v # vs) idx max_value max_idx =
     (if fgt v max_value then argmax_from vs (Suc idx) v idx
      else if v = NaN then idx
      else argmax_from vs (Suc idx) max_value max_idx)"

definition argmax :: "fval list \<Rightarrow> error + nat" where
  "argmax arr =
     (case arr of
        [] \<Rightarrow> Inl ValueError
      | v # vs \<Rightarrow> if v = NaN then Inr 0 else Inr (argmax_from arr 0 v 0))"

text \<open>
  One pass through the body of the loop of \<open>fsmr\<close>, on the state \<open>(coeffs, residual)\<close>;
  \<open>D\<close> is computed once before the loop.  The products with the matrix need the length of
  the vector to be the number of columns.  The compiled loop checks no index: an index
  from \<open>argmax\<close> beyond the dictionary (possible only when the frequency weights are longer
  than the dictionary) reads values that nothing specifies, as \<open>!\<close> does beyond a list, and
  the loop goes on.
\<close>

definition fsmr_step ::
  "nat \<times> real list list \<Rightarrow> real list \<Rightarrow> fval list \<Rightarrow> real list \<Rightarrow> real
     \<Rightarrow> real list \<times> real list \<Rightarrow> error + (real list \<times> real list)" where
  "fsmr_step basis_dict spatial_weighting freq_weighting D odc st =
     (case st of (coeffs, residual) \<Rightarrow>
        (case broadcast (*) residual spatial_weighting of
           Inl e \<Rightarrow> Inl e
         | Inr rw \<Rightarrow>
             if length rw \<noteq> fst basis_dict then Inl ValueError
             else
               let projected_residual = map (\<lambda>row. dot_vec row rw) (snd basis_dict)
               in (case broadcast fmul freq_weighting
                          (map2 fdiv (map (\<lambda>p. p\<^sup>2) projected_residual) D) of
                     Inl e \<Rightarrow> Inl e
                   | Inr obj \<Rightarrow>
                       (case argmax obj of
                          Inl e \<Rightarrow> Inl e
                        | Inr idx \<Rightarrow>
                            if D ! idx = 0 then Inl ZeroDivisionError
                            else
                              let c = projected_residual ! idx / D ! idx;
                                  coeffs' = coeffs[idx := coeffs ! idx + odc * c]
                              in (case broadcast (-) residual
                                         (map (\<lambda>b. odc * b * c) (snd basis_dict ! idx)) of
                                    Inl e \<Rightarrow> Inl e
                                  | Inr residual' \<Rightarrow> Inr (coeffs', residual'))))))"

fun fsmr_loop ::
  "nat \<Rightarrow> nat \<times> real list list \<Rightarrow> real list \<Rightarrow> fval list \<Rightarrow> real list \<Rightarrow> real
     \<Rightarrow> real list \<times> real list \<Rightarrow> error + (real list \<times> real list)" where
  "fsmr_loop 0 basis_dict spatial_weighting freq_weighting D odc st = Inr st"
| "fsmr_loop (Suc n) basis_dict spatial_weighting freq_weighting D odc st =
     (case fsmr_step basis_dict spatial_weighting freq_weighting D odc st of
        Inl e \<Rightarrow> Inl e
      | Inr st' \<Rightarrow> fsmr_loop n basis_dict spatial_weighting freq_weighting D odc st')"

text \<open>
  \<^verbatim>\<open>for i in range(max_iterations)\<close> runs \<open>nat max_iterations\<close> times: not at all for a
  negative bound.
\<close>

definition fsmr ::
  "real list \<Rightarrow> nat \<times> real list list \<Rightarrow> real list \<Rightarrow> fval list \<Rightarrow> real \<Rightarrow> int
     \<Rightarrow> error + real list" where
  "fsmr mesh_val basis_dict spatial_weighting freq_weighting odc max_iterations =
     (if fst basis_dict \<noteq> length spatial_weighting then Inl ValueError
      else
        let L = length (snd basis_dict);
            residual = mesh_val;
            coeffs = replicate L 0;
            D = map (\<lambda>row. dot_vec (map (\<lambda>b. b\<^sup>2) row) spatial_weighting) (snd basis_dict)
        in (case fsmr_loop (nat max_iterations) basis_dict spatial_weighting freq_weighting D odc
                  (coeffs, residual) of
              Inl e \<Rightarrow> Inl e
            | Inr (coeffs', residual') \<Rightarrow> Inr coeffs'))"

section \<open>fsmr/resample\_fsmr.py\<close>

text \<open>
  The point arrays are objects that the caller shares with \<open>resample_fsmr\<close>, and
  \<^verbatim>\<open>source_mesh += shift\<close> writes into them.  The store maps the address of an array of
  shape \<open>[N, 2]\<close> to its rows \<open>(x, y)\<close>; \<open>resample_fsmr\<close> takes the store and the
  addresses of the two meshes and returns the store after the call together with its result
  or error.  \<^verbatim>\<open>basis.transpose().dot(coeffs)\<close> is the product of each column with the
  coefficients.
\<close>

type_synonym store = "nat \<Rightarrow> (real \<times> real) list"

definition add_shift :: "real \<Rightarrow> (real \<times> real) list \<Rightarrow> (real \<times> real) list" where
  "add_shift shift mesh = map (\<lambda>(a, b). (a + shift, b + shift)) mesh"

definition transpose_dot :: "nat \<times> real list list \<Rightarrow> real list \<Rightarrow> real list" where
  "transpose_dot basis coeffs =
     map (\<lambda>j. dot_vec (map (\<lambda>row. row ! j) (snd basis)) coeffs) [0..<fst basis]"

definition resample_fsmr ::
  "store \<Rightarrow> nat \<Rightarrow> real list \<Rightarrow> nat \<Rightarrow> int \<Rightarrow> real \<Rightarrow> real \<Rightarrow> real \<Rightarrow> int \<Rightarrow> real list option
     \<Rightarrow> store \<times> (error + real list)" where
  "resample_fsmr h source_mesh source_val target_mesh transform_length odc sigma shift
       max_iterations spatial_weighting =
     (let h1 = h(source_mesh := add_shift shift (h source_mesh));
          h2 = h1(target_mesh := add_shift shift (h1 target_mesh))
      in (h2,
          (case dct_basis_dict (map fst (h2 source_mesh)) (map snd (h2 source_mesh))
                  transform_length of
             Inl e \<Rightarrow> Inl e
           | Inr basis_functions_source_mesh \<Rightarrow>
               (case dct_frequency_weighting transform_length sigma of
                  Inl e \<Rightarrow> Inl e
                | Inr frequency_weighting \<Rightarrow>
                    let spatial_weighting' =
                          (case spatial_weighting of
                             None \<Rightarrow> replicate (length (h2 source_mesh)) 1
                           | Some w \<Rightarrow> w)
                    in (case fsmr source_val basis_functions_source_mesh spatial_weighting'
                              frequency_weighting odc max_iterations of
                          Inl e \<Rightarrow> Inl e
                        | Inr coeffs \<Rightarrow>
                            (case dct_basis_dict (map fst (h2 target_mesh))
                                    (map snd (h2 target_mesh)) transform_length of
                               Inl e \<Rightarrow> Inl e
                             | Inr basis_functions_target_mesh \<Rightarrow>
                                 Inr (transpose_dot basis_functions_target_mesh coeffs)))))))"

text \<open>The store in which every address holds the same array.\<close>

definition const_store :: "(real \<times> real) list \<Rightarrow> store" where
  "const_store mesh a = mesh"

section \<open>Facts about cmp_size\<close>

lemma floor_sqrt_eq:
  fixes k :: int and r :: real
  assumes "0 \<le> k" and "(real_of_int k)\<^sup>2 \<le> r" and "r < (real_of_int k + 1)\<^sup>2"
  shows "\<lfloor>sqrt r\<rfloor> = k"
proof (rule floor_unique)
  show "real_of_int k \<le> sqrt r"
    using assms(2) by (rule real_le_rsqrt)
  have "sqrt r < real_of_int k + 1"
    using assms(1,3) by (intro real_less_lsqrt) auto
  then show "sqrt r < real_of_int k + 1" .
qed

lemma floor_sqrt_bounds:
  fixes r :: real
  assumes "0 \<le> r"
  defines "v \<equiv> \<lfloor>sqrt r\<rfloor>"
  shows "0 \<le> v" and "(real_of_int v)\<^sup>2 \<le> r" and "r < (real_of_int v + 1)\<^sup>2"
proof -
  have s0: "0 \<le> sqrt r" using assms(1) by simp
  show v0: "0 \<le> v" unfolding v_def using s0 by simp
  have le: "real_of_int v \<le> sqrt r" unfolding v_def by simp
  have "(real_of_int v)\<^sup>2 \<le> (sqrt r)\<^sup>2"
    using v0 le by (intro power_mono) auto
  then show "(real_of_int v)\<^sup>2 \<le> r" using assms(1) by simp
  have lt: "sqrt r < real_of_int v + 1" unfolding v_def by linarith
  have "(sqrt r)\<^sup>2 < (real_of_int v + 1)\<^sup>2"
    using s0 lt by (intro power_strict_mono) auto
  then show "r < (real_of_int v + 1)\<^sup>2" using assms(1) by simp
qed

lemma cmp_size_1024_2048_32: "cmp_size (1024, 2048) 32 = Inr (1216, 1824)"
proof -
  have "\<lfloor>sqrt (real_of_int (1024 * 2048) / 6)\<rfloor> = (591::int)"
    by (rule floor_sqrt_eq) (simp_all add: power2_eq_square)
  then show ?thesis by (simp add: cmp_size_def Let_def)
qed

lemma cmp_size_50_50_32: "cmp_size (50, 50) 32 = Inr (0, 0)"
proof -
  have "\<lfloor>sqrt (real_of_int (50 * 50) / 6)\<rfloor> = (20::int)"
    by (rule floor_sqrt_eq) (simp_all add: power2_eq_square)
  then show ?thesis by (simp add: cmp_size_def Let_def)
qed

lemma cmp_size_unfold:
  fixes H W B :: int
  assumes "0 < H" "0 < W" "0 < B"
  defines "v \<equiv> \<lfloor>sqrt (real_of_int (H * W) / 6)\<rfloor>"
  defines "F \<equiv> (if 2 * (v mod B) < B then v + (B - v mod B) else v - v mod B)"
  shows "cmp_size (H, W) B = Inr (2 * F, 3 * F)"
proof -
  have cond: "(real_of_int (v mod B) < real_of_int B / 2) = (2 * (v mod B) < B)"
  proof -
    have "(real_of_int (v mod B) < real_of_int B / 2) = (real_of_int (2 * (v mod B)) < real_of_int B)"
      by (simp add: field_simps)
    then show ?thesis by (simp only: of_int_less_iff)
  qed
  have hw: "\<not> H * W < 0" "B \<noteq> 0" using assms(1,2,3) by (simp_all add: mult_less_0_iff)
  show ?thesis
    unfolding cmp_size_def fst_conv snd_conv Let_def v_def[symmetric] cond
    using hw by (simp add: F_def mult.commute)
qed

lemma cmp_size_v_bounds:
  fixes H W :: int
  assumes "0 < H" "0 < W"
  defines "v \<equiv> \<lfloor>sqrt (real_of_int (H * W) / 6)\<rfloor>"
  shows "0 \<le> v" and "6 * v\<^sup>2 \<le> H * W" and "H * W < 6 * (v + 1)\<^sup>2"
proof -
  have r0: "0 \<le> real_of_int (H * W) / 6" using assms(1,2) by simp
  note b = floor_sqrt_bounds[OF r0, folded v_def]
  show "0 \<le> v" by (rule b(1))
  have "real_of_int (6 * v\<^sup>2) \<le> real_of_int (H * W)" using b(2) by simp
  then show "6 * v\<^sup>2 \<le> H * W" by (simp only: of_int_le_iff)
  have "real_of_int (H * W) < real_of_int (6 * (v + 1)\<^sup>2)" using b(3) by simp
  then show "H * W < 6 * (v + 1)\<^sup>2" by (simp only: of_int_less_iff)
qed

text \<open>
  Claim C4, as the code has it.  For positive sizes and a positive block size,
  \<open>cmp_size\<close> returns \<open>(2F, 3F)\<close> where, with \<open>v\<close> the integer square root of
  \<open>H * W / 6\<close>, the face length \<open>F\<close> is a multiple of the block size: the next multiple
  strictly above \<open>v\<close> when the remainder of \<open>v\<close> is below half a block, and the
  multiple at or below \<open>v\<close> otherwise.
\<close>

theorem cmp_size_rounding:
  fixes H W B :: int
  assumes "0 < H" "0 < W" "0 < B"
  defines "v \<equiv> \<lfloor>sqrt (real_of_int (H * W) / 6)\<rfloor>"
  shows "\<exists>F. cmp_size (H, W) B = Inr (2 * F, 3 * F)
          \<and> 0 \<le> v \<and> 6 * v\<^sup>2 \<le> H * W \<and> H * W < 6 * (v + 1)\<^sup>2
          \<and> B dvd F
          \<and> (if 2 * (v mod B) < B then v < F \<and> F \<le> v + B else F \<le> v \<and> v < F + B)"
proof -
  define m where "m = v mod B"
  have m: "0 \<le> m" "m < B" using assms(3) by (simp_all add: m_def)
  have vm: "B dvd v - m" by (simp add: m_def dvd_minus_mod)
  define F where "F = (if 2 * m < B then v + (B - m) else v - m)"
  have eq: "cmp_size (H, W) B = Inr (2 * F, 3 * F)"
    unfolding F_def m_def v_def by (rule cmp_size_unfold[OF assms(1,2,3)])
  have dv: "B dvd F"
  proof (cases "2 * m < B")
    case True
    have "F = (v - m) + B" using True by (simp add: F_def)
    then show ?thesis using vm by simp
  next
    case False
    then show ?thesis using vm by (simp add: F_def)
  qed
  have rnd: "(if 2 * m < B then v < F \<and> F \<le> v + B else F \<le> v \<and> v < F + B)"
    using m by (simp add: F_def)
  show ?thesis
    using eq cmp_size_v_bounds[OF assms(1,2), folded v_def] dv rnd unfolding m_def by blast
qed

theorem cmp_size_rounding_witness:
  "\<exists>F. cmp_size (1024, 2048) 32 = Inr (2 * F, 3 * F)
      \<and> 0 \<le> \<lfloor>sqrt (real_of_int (1024 * 2048) / 6)\<rfloor>
      \<and> 6 * \<lfloor>sqrt (real_of_int (1024 * 2048) / 6)\<rfloor>\<^sup>2 \<le> 1024 * 2048
      \<and> 1024 * 2048 < 6 * (\<lfloor>sqrt (real_of_int (1024 * 2048) / 6)\<rfloor> + 1)\<^sup>2
      \<and> 32 dvd F
      \<and> (if 2 * (\<lfloor>sqrt (real_of_int (1024 * 2048) / 6)\<rfloor> mod 32) < 32
          then \<lfloor>sqrt (real_of_int (1024 * 2048) / 6)\<rfloor> < F
             \<and> F \<le> \<lfloor>sqrt (real_of_int (1024 * 2048) / 6)\<rfloor> + 32
          else F \<le> \<lfloor>sqrt (real_of_int (1024 * 2048) / 6)\<rfloor>
             \<and> \<lfloor>sqrt (real_of_int (1024 * 2048) / 6)\<rfloor> < F + 32)"
proof -
  have h: "(0::int) < 1024" "(0::int) < 2048" "(0::int) < 32" by simp_all
  show ?thesis by (rule cmp_size_rounding[OF h])
qed

text \<open>
  Claim C4 as stated also fixes the value at \<open>(1024, 2048)\<close> and block size 32 to be
  \<open>(1024, 1536)\<close>.  The code returns \<open>(1216, 1824)\<close>: \<open>v = 591\<close>, the remainder is 15,
  which is below 16, so \<open>F = 608\<close>.
\<close>

theorem cmp_size_S3_counterexample:
  "cmp_size (1024, 2048) 32 = Inr (1216, 1824) \<and> cmp_size (1024, 2048) 32 \<noteq> Inr (1024, 1536)"
  by (simp add: cmp_size_1024_2048_32)

section \<open>Facts about CubemapProjection\<close>

lemma new_region_eq:
  "axis_of_char xc = Some xa \<Longrightarrow> axis_of_char yc = Some ya \<Longrightarrow> xa \<noteq> ya \<Longrightarrow>
   filter (\<lambda>a. a \<notin> {xa, ya}) [X, Y, Z] = pa # rest \<Longrightarrow>
   new_region x2 x3 xc y2 y3 yc pv = Inr (mk_region x2 x3 xa y2 y3 ya pa pv)"
  by (simp add: new_region_def CoordMap_init_def Region_init_def mk_region_def)

lemma CubemapProjection_init_eq:
  "CubemapProjection_init sz =
     Inr \<lparr>canvas_size = sz,
          top_region = mk_region (0, 1/3) (-1, 1) X (0.5, 1) (-1, 1) Y Z 1,
          left_region = mk_region (0, 1/3) (1, -1) X (0, 0.5) (1, -1) Z Y (-1),
          front_region = mk_region (1/3, 2/3) (-1, 1) Y (0, 0.5) (1, -1) Z X (-1),
          right_region = mk_region (2/3, 1) (-1, 1) X (0, 0.5) (1, -1) Z Y 1,
          back_region = mk_region (1/3, 2/3) (1, -1) Z (0.5, 1) (-1, 1) Y X 1,
          bottom_region = mk_region (2/3, 1) (1, -1) X (0.5, 1) (-1, 1) Y Z (-1)\<rparr>"
proof -
  have t: "new_region (0, 1/3) (-1, 1) CHR ''x'' (0.5, 1) (-1, 1) CHR ''y'' 1
           = Inr (mk_region (0, 1/3) (-1, 1) X (0.5, 1) (-1, 1) Y Z 1)"
    by (rule new_region_eq[where rest="[]"]) (simp_all add: axis_of_char_def)
  have l: "new_region (0, 1/3) (1, -1) CHR ''x'' (0, 0.5) (1, -1) CHR ''z'' (-1)
           = Inr (mk_region (0, 1/3) (1, -1) X (0, 0.5) (1, -1) Z Y (-1))"
    by (rule new_region_eq[where rest="[]"]) (simp_all add: axis_of_char_def)
  have f: "new_region (1/3, 2/3) (-1, 1) CHR ''y'' (0, 0.5) (1, -1) CHR ''z'' (-1)
           = Inr (mk_region (1/3, 2/3) (-1, 1) Y (0, 0.5) (1, -1) Z X (-1))"
    by (rule new_region_eq[where rest="[]"]) (simp_all add: axis_of_char_def)
  have r: "new_region (2/3, 1) (-1, 1) CHR ''x'' (0, 0.5) (1, -1) CHR ''z'' 1
           = Inr (mk_region (2/3, 1) (-1, 1) X (0, 0.5) (1, -1) Z Y 1)"
    by (rule new_region_eq[where rest="[]"]) (simp_all add: axis_of_char_def)
  have b: "new_region (1/3, 2/3) (1, -1) CHR ''z'' (0.5, 1) (-1, 1) CHR ''y'' 1
           = Inr (mk_region (1/3, 2/3) (1, -1) Z (0.5, 1) (-1, 1) Y X 1)"
    by (rule new_region_eq[where rest="[]"]) (simp_all add: axis_of_char_def)
  have o: "new_region (2/3, 1) (1, -1) CHR ''x'' (0.5, 1) (-1, 1) CHR ''y'' (-1)
           = Inr (mk_region (2/3, 1) (1, -1) X (0.5, 1) (-1, 1) Y Z (-1))"
    by (rule new_region_eq[where rest="[]"]) (simp_all add: axis_of_char_def)
  show ?thesis unfolding CubemapProjection_init_def t l f r b o by simp
qed

text \<open>
  Claim C9, as the code has it.  The constructor of \<open>CubemapProjection\<close> stores the canvas
  size without looking at it and builds the six fixed regions, none of which can fail:
  construction succeeds for every size, in the ratio 2:3 or not.
\<close>

theorem CubemapProjection_init_total:
  "\<exists>p. CubemapProjection_init sz = Inr p \<and> canvas_size p = sz"
  by (simp add: CubemapProjection_init_eq)

text \<open>
  Claim C9 as stated requires a canvas that is not of the form \<open>(2F, 3F)\<close> to be rejected.
  The canvas \<open>(5, 7)\<close> is accepted.
\<close>

theorem CubemapProjection_init_counterexample:
  "\<not> isl (CubemapProjection_init (5, 7))"
  by (simp add: CubemapProjection_init_eq)

lemma select_by_mask: "map fst (filter snd (zip pts (map f pts))) = filter f pts"
  by (induction pts) auto

lemma to_2d_selected: "to_2d reg (filter (within_cubeface_mask reg) pts)
   = Inr (map (to_2d_elem reg) (filter (within_cubeface_mask reg) pts))"
  by (simp add: to_2d_def list_all_iff)

lemma put_mask_length:
  "length cs = length ms \<Longrightarrow> length (put_mask ms vs cs) = length ms"
  by (induction ms vs cs rule: put_mask.induct) auto

lemma put_mask_keeps:
  "length cs = length ms \<Longrightarrow> i < length ms \<Longrightarrow> \<not> ms ! i \<Longrightarrow> put_mask ms vs cs ! i = cs ! i"
proof (induction ms vs cs arbitrary: i rule: put_mask.induct)
  case (1 ms v vs c cs)
  then show ?case by (cases i) auto
next
  case (2 ms vs c cs)
  then show ?case by (cases i) auto
qed auto

lemma region_pass_ok:
  assumes "length coords = length pts"
  shows "\<exists>c'. region_pass reg pts coords = Inr c' \<and> length c' = length pts
           \<and> (\<forall>i<length pts. \<not> within_cubeface_mask reg (pts ! i) \<longrightarrow> c' ! i = coords ! i)"
proof -
  let ?mask = "map (within_cubeface_mask reg) pts"
  let ?vals = "map (\<lambda>(y, x). (Some y, Some x)) (map (to_2d_elem reg) (filter (within_cubeface_mask reg) pts))"
  have eq: "region_pass reg pts coords = Inr (put_mask ?mask ?vals coords)"
    by (simp add: region_pass_def Let_def select_by_mask to_2d_selected comp_def)
  have len: "length coords = length ?mask" using assms by simp
  have l: "length (put_mask ?mask ?vals coords) = length pts"
    using put_mask_length[OF len] by simp
  have k: "\<forall>i<length pts. \<not> within_cubeface_mask reg (pts ! i)
             \<longrightarrow> put_mask ?mask ?vals coords ! i = coords ! i"
    using put_mask_keeps[OF len] by simp
  show ?thesis using eq l k by blast
qed

lemma from_sphere_loop_ok:
  assumes "length coords = length pts"
  shows "\<exists>c'. from_sphere_loop regs pts coords = Inr c' \<and> length c' = length pts
           \<and> (\<forall>i<length pts. (\<forall>reg\<in>set regs. \<not> within_cubeface_mask reg (pts ! i))
                 \<longrightarrow> c' ! i = coords ! i)"
  using assms
proof (induction regs arbitrary: coords)
  case Nil
  then show ?case by simp
next
  case (Cons reg regs)
  obtain c1 where c1: "region_pass reg pts coords = Inr c1" "length c1 = length pts"
      "\<forall>i<length pts. \<not> within_cubeface_mask reg (pts ! i) \<longrightarrow> c1 ! i = coords ! i"
    using region_pass_ok[OF Cons.prems] by blast
  obtain c2 where c2: "from_sphere_loop regs pts c1 = Inr c2" "length c2 = length pts"
      "\<forall>i<length pts. (\<forall>r\<in>set regs. \<not> within_cubeface_mask r (pts ! i)) \<longrightarrow> c2 ! i = c1 ! i"
    using Cons.IH[OF c1(2)] by blast
  have "from_sphere_loop (reg # regs) pts coords = Inr c2" using c1(1) c2(1) by simp
  moreover have "\<forall>i<length pts. (\<forall>r\<in>set (reg # regs). \<not> within_cubeface_mask r (pts ! i))
                 \<longrightarrow> c2 ! i = coords ! i"
    using c1(3) c2(3) by simp
  ultimately show ?case using c2(2) by blast
qed

lemma mask_mk_region:
  "within_cubeface_mask (mk_region x2 x3 xa y2 y3 ya pa pv) (xs, ys, zs) \<longleftrightarrow>
     (if sgn pv > 0 then [xs, ys, zs] ! ax_to_idx pa > 0 else [xs, ys, zs] ! ax_to_idx pa < 0)
     \<and> [\<bar>xs\<bar>, \<bar>ys\<bar>, \<bar>zs\<bar>] ! ax_to_idx pa > [\<bar>xs\<bar>, \<bar>ys\<bar>, \<bar>zs\<bar>] ! ax_to_idx xa
     \<and> [\<bar>xs\<bar>, \<bar>ys\<bar>, \<bar>zs\<bar>] ! ax_to_idx pa > [\<bar>xs\<bar>, \<bar>ys\<bar>, \<bar>zs\<bar>] ! ax_to_idx ya"
  by (simp add: within_cubeface_mask_def mk_region_def Let_def)


section \<open>Facts about arctan2\<close>

lemma sqrt_one_plus_quot:
  fixes x y :: real
  assumes "x \<noteq> 0"
  shows "sqrt (1 + (y / x)\<^sup>2) = sqrt (x\<^sup>2 + y\<^sup>2) / \<bar>x\<bar>"
proof -
  have "1 + (y / x)\<^sup>2 = (x\<^sup>2 + y\<^sup>2) / x\<^sup>2"
    using assms by (simp add: field_simps power2_eq_square)
  then show ?thesis by (simp add: real_sqrt_divide)
qed

lemma rho_pos:
  fixes x y :: real
  assumes "x \<noteq> 0 \<or> y \<noteq> 0"
  shows "0 < sqrt (x\<^sup>2 + y\<^sup>2)"
proof -
  have "0 < x\<^sup>2 + y\<^sup>2" using assms by (auto simp: sum_power2_gt_zero_iff)
  then show ?thesis by simp
qed

lemma cos_arctan_quot:
  fixes x y :: real
  assumes "x \<noteq> 0"
  shows "cos (arctan (y / x)) = \<bar>x\<bar> / sqrt (x\<^sup>2 + y\<^sup>2)"
  using assms by (simp add: cos_arctan sqrt_one_plus_quot)

lemma sin_arctan_quot:
  fixes x y :: real
  assumes "x \<noteq> 0"
  shows "sin (arctan (y / x)) = (y / x) * \<bar>x\<bar> / sqrt (x\<^sup>2 + y\<^sup>2)"
  using assms by (simp add: sin_arctan sqrt_one_plus_quot)

lemma cos_arctan2:
  fixes x y :: real
  assumes "x \<noteq> 0 \<or> y \<noteq> 0"
  shows "cos (arctan2 y x) = x / sqrt (x\<^sup>2 + y\<^sup>2)"
proof -
  consider "0 < x" | "x < 0" "0 \<le> y" | "x < 0" "y < 0" | "x = 0" "0 < y" | "x = 0" "y < 0"
    using assms by linarith
  then show ?thesis
  proof cases
    case 1
    then show ?thesis by (simp add: arctan2_def cos_arctan_quot)
  next
    case 2
    then show ?thesis by (simp add: arctan2_def cos_arctan_quot)
  next
    case 3
    then show ?thesis by (simp add: arctan2_def cos_arctan_quot)
  next
    case 4
    then show ?thesis by (simp add: arctan2_def)
  next
    case 5
    then show ?thesis by (simp add: arctan2_def)
  qed
qed

lemma sin_arctan2:
  fixes x y :: real
  assumes "x \<noteq> 0 \<or> y \<noteq> 0"
  shows "sin (arctan2 y x) = y / sqrt (x\<^sup>2 + y\<^sup>2)"
proof -
  consider "0 < x" | "x < 0" "0 \<le> y" | "x < 0" "y < 0" | "x = 0" "0 < y" | "x = 0" "y < 0"
    using assms by linarith
  then show ?thesis
  proof cases
    case 1
    then show ?thesis by (simp add: arctan2_def sin_arctan_quot)
  next
    case 2
    then show ?thesis by (simp add: arctan2_def sin_arctan_quot)
  next
    case 3
    then show ?thesis by (simp add: arctan2_def sin_arctan_quot sin_diff)
  next
    case 4
    then show ?thesis by (simp add: arctan2_def)
  next
    case 5
    then show ?thesis by (simp add: arctan2_def)
  qed
qed

lemma arctan2_range: "- pi < arctan2 y x \<and> arctan2 y x \<le> pi"
proof -
  have b: "- (pi / 2) < arctan (y / x)" "arctan (y / x) < pi / 2"
    by (rule arctan_lbound, rule arctan_ubound)
  have neg: "x < 0 \<Longrightarrow> 0 \<le> y \<Longrightarrow> arctan (y / x) \<le> 0"
    by (simp add: divide_nonneg_neg arctan_le_zero_iff)
  have pos: "x < 0 \<Longrightarrow> y < 0 \<Longrightarrow> 0 < arctan (y / x)"
    by (simp add: divide_neg_neg zero_less_arctan_iff)
  show ?thesis
    using b neg pos pi_gt_zero unfolding arctan2_def by (auto split: if_splits) 
qed

lemma angle_unique:
  assumes "- pi < a" "a \<le> pi" "- pi < t" "t \<le> pi" "sin a = sin t" "cos a = cos t"
  shows "a = t"
proof -
  obtain n :: int where n: "a = t + 2 * pi * real_of_int n"
    using assms(5,6) sin_cos_eq_iff[of a t] by blast
  have "2 * pi * real_of_int n < 2 * pi" using assms(1-4) n by linarith
  then have "real_of_int n < 1" using pi_gt_zero by (simp add: mult_less_cancel_left_pos)
  moreover have "- (2 * pi) < 2 * pi * real_of_int n" using assms(1-4) n by linarith
  then have "2 * pi * (- 1) < 2 * pi * real_of_int n" by simp
  then have "- 1 < real_of_int n" using pi_gt_zero by (simp only: mult_less_cancel_left_pos[of "2*pi"] mult_pos_pos zero_less_numeral)
  ultimately have "n = 0" by linarith
  then show ?thesis using n by simp
qed

lemma arctan2_polar:
  assumes "0 < r" "- pi < t" "t \<le> pi"
  shows "arctan2 (r * sin t) (r * cos t) = t"
proof -
  have nz: "r * cos t \<noteq> 0 \<or> r * sin t \<noteq> 0"
  proof (rule ccontr)
    assume "\<not> ?thesis"
    then have "cos t = 0" "sin t = 0" using assms(1) by auto
    then have "(sin t)\<^sup>2 + (cos t)\<^sup>2 = 0" by simp
    then show False by simp
  qed
  have "(r * cos t)\<^sup>2 + (r * sin t)\<^sup>2 = r\<^sup>2 * ((cos t)\<^sup>2 + (sin t)\<^sup>2)"
    by (simp only: power_mult_distrib distrib_left)
  also have "\<dots> = r\<^sup>2" by simp
  finally have rho: "sqrt ((r * cos t)\<^sup>2 + (r * sin t)\<^sup>2) = r" using assms(1) by simp
  have c: "cos (arctan2 (r * sin t) (r * cos t)) = cos t"
    using cos_arctan2[OF nz] assms(1) unfolding rho by simp
  have s: "sin (arctan2 (r * sin t) (r * cos t)) = sin t"
    using sin_arctan2[OF nz] assms(1) unfolding rho by simp
  show ?thesis
    using angle_unique[OF _ _ assms(2,3) s c] arctan2_range by blast
qed

section \<open>Facts about the equirectangular projection\<close>

lemma unit_sphere_norm: "(sin th * cos ph)\<^sup>2 + (sin th * sin ph)\<^sup>2 + (cos th)\<^sup>2 = (1::real)"
proof -
  have "(sin th * cos ph)\<^sup>2 + (sin th * sin ph)\<^sup>2 = (sin th)\<^sup>2 * ((cos ph)\<^sup>2 + (sin ph)\<^sup>2)"
    by (simp only: power_mult_distrib distrib_left)
  then show ?thesis by simp
qed

lemma arctan2_wrap:
  assumes "0 < r" "- (2 * pi) < ph" "ph \<le> 0"
  shows "(if arctan2 (r * sin ph) (r * cos ph) > 0
          then arctan2 (r * sin ph) (r * cos ph) - 2 * pi
          else arctan2 (r * sin ph) (r * cos ph)) = ph"
proof (cases "- pi < ph")
  case True
  have "arctan2 (r * sin ph) (r * cos ph) = ph"
    using assms True pi_gt_zero by (intro arctan2_polar) auto
  then show ?thesis using assms(3) by simp
next
  case False
  have t: "- pi < ph + 2 * pi" "ph + 2 * pi \<le> pi" using assms False by auto
  have "arctan2 (r * sin (ph + 2 * pi)) (r * cos (ph + 2 * pi)) = ph + 2 * pi"
    using assms(1) t by (rule arctan2_polar)
  then have "arctan2 (r * sin ph) (r * cos ph) = ph + 2 * pi" by simp
  then show ?thesis using assms(2) by simp
qed

lemma erp_round_trip_real:
  fixes H W :: int and y x :: real
  assumes "0 < H" "0 < W" "- (1/2) < y" "y < real_of_int H - 1/2" "- (1/2) \<le> x" "x < real_of_int W - 1/2"
  shows "erp_from_sphere (H, W) (erp_to_sphere (H, W) y x) = (y, x)"
proof -
  define th where "th = ((y + 0.5) / real_of_int H) * pi"
  define ph where "ph = - ((x + 0.5) / real_of_int W) * 2 * pi"
  have Hp: "0 < real_of_int H" and Wp: "0 < real_of_int W" using assms(1,2) by simp_all
  have q1: "0 < (y + 0.5) / real_of_int H" using assms(3) Hp by simp
  have q2: "(y + 0.5) / real_of_int H < 1" using assms(4) Hp by simp
  have th0: "0 < th" unfolding th_def using q1 pi_gt_zero by (rule mult_pos_pos)
  have "th < 1 * pi" unfolding th_def using q2 pi_gt_zero by (intro mult_strict_right_mono) auto
  then have thpi: "th < pi" by simp
  have p1: "0 \<le> (x + 0.5) / real_of_int W" using assms(5) Wp by simp
  have p2: "(x + 0.5) / real_of_int W < 1" using assms(6) Wp by simp
  have pheq: "ph = - (((x + 0.5) / real_of_int W) * (2 * pi))" unfolding ph_def by simp
  have "((x + 0.5) / real_of_int W) * (2 * pi) < 1 * (2 * pi)"
    using p2 pi_gt_zero by (intro mult_strict_right_mono) auto
  then have ph1: "- (2 * pi) < ph" unfolding pheq by simp
  have "0 \<le> ((x + 0.5) / real_of_int W) * (2 * pi)" using p1 pi_gt_zero by (intro mult_nonneg_nonneg) auto
  then have ph2: "ph \<le> 0" unfolding pheq by simp
  have sp: "0 < sin th" using th0 thpi by (rule sin_gt_zero)
  have to: "erp_to_sphere (H, W) y x = (sin th * cos ph, sin th * sin ph, cos th)"
    by (simp add: erp_to_sphere_def spherical_to_cartesian_def Let_def th_def ph_def)
  have ac: "arccos (cos th) = th" using th0 thpi by (intro arccos_cos) auto
  have sph: "cartesian_to_spherical (sin th * cos ph) (sin th * sin ph) (cos th)
             = (1, th, arctan2 (sin th * sin ph) (sin th * cos ph))"
    by (simp add: cartesian_to_spherical_def Let_def unit_sphere_norm ac)
  have wrap: "(if arctan2 (sin th * sin ph) (sin th * cos ph) > 0
          then arctan2 (sin th * sin ph) (sin th * cos ph) - 2 * pi
          else arctan2 (sin th * sin ph) (sin th * cos ph)) = ph"
    using sp ph1 ph2 by (rule arctan2_wrap)
  have ey: "(th / pi) * real_of_int H - 0.5 = y"
    unfolding th_def using Hp pi_gt_zero by (simp add: field_simps)
  have ex: "- (ph / (2 * pi)) * real_of_int W - 0.5 = x"
    unfolding ph_def using Wp pi_gt_zero by (simp add: field_simps)
  have "erp_from_sphere (H, W) (sin th * cos ph, sin th * sin ph, cos th)
        = ((th / pi) * real_of_int H - 0.5, - (ph / (2 * pi)) * real_of_int W - 0.5)"
    unfolding erp_from_sphere_def sph prod.case Let_def wrap fst_conv snd_conv by (rule refl)
  then show ?thesis unfolding to ey ex .
qed

text \<open>
  Claim C1.  For an equirectangular projection of positive size \<open>(H, W)\<close> and every pixel
  centre \<open>(y, x)\<close> with \<open>0 \<le> y < H\<close> and \<open>0 \<le> x < W\<close>, \<open>from_sphere\<close> after
  \<open>to_sphere\<close> returns \<open>(y, x)\<close>, exactly over the reals; the witness is the round trip
  of the pixel \<open>(3, 5)\<close> of an 8 by 8 image.
\<close>

theorem erp_round_trip:
  fixes H W y x :: int
  assumes "0 < H" "0 < W" "0 \<le> y" "y < H" "0 \<le> x" "x < W"
  shows "erp_from_sphere (H, W) (erp_to_sphere (H, W) (real_of_int y) (real_of_int x))
         = (real_of_int y, real_of_int x)"
proof -
  have "- (1/2) < real_of_int y" "- (1/2) \<le> real_of_int x" using assms(3,5) by simp_all
  moreover have "real_of_int y \<le> real_of_int H - 1" "real_of_int x \<le> real_of_int W - 1"
    using assms(4,6) by linarith+
  then have "real_of_int y < real_of_int H - 1/2" "real_of_int x < real_of_int W - 1/2"
    by linarith+
  ultimately show ?thesis using assms(1,2) by (intro erp_round_trip_real)
qed

theorem erp_round_trip_witness:
  "erp_from_sphere (8, 8) (erp_to_sphere (8, 8) 3 5) = (3, 5)"
proof -
  have h: "(0::int) < 8" "(0::int) \<le> 3" "(3::int) < 8" "(0::int) \<le> 5" "(5::int) < 8" by simp_all
  show ?thesis using erp_round_trip[OF h(1) h(1) h(2) h(3) h(4) h(5)] by simp
qed

section \<open>Facts about the rotation matrix\<close>

lemma transpose3:
  "transpose [[a1, a2, a3], [b1, b2, b3], [c1, c2, c3 :: real]]
   = [[a1, b1, c1], [a2, b2, c2], [a3, b3, c3]]"
  by (simp add: transpose.simps)

lemma dot_vec3: "dot_vec [a1, a2, a3] [b1, b2, b3] = a1 * b1 + a2 * b2 + a3 * b3"
  by (simp add: dot_vec_def)

lemma rot_form:
  "dot_mm [[cb, 0, sb], [0, 1, 0], [- sb, 0, cb]] [[cg, - sg, 0], [sg, cg, 0], [0, 0, 1]]
   = [[cb * cg, - (cb * sg), sb], [sg, cg, 0], [- (sb * cg), sb * sg, cb]]"
  by (simp add: dot_mm_def transpose3 dot_vec3)

lemma rot_orthogonal:
  fixes cb sb cg sg :: real
  assumes "cb\<^sup>2 + sb\<^sup>2 = 1" "cg\<^sup>2 + sg\<^sup>2 = 1"
  shows "orthogonal3 [[cb * cg, - (cb * sg), sb], [sg, cg, 0], [- (sb * cg), sb * sg, cb]]"
proof -
  have b: "cb * cb + sb * sb = 1" "sb * sb + cb * cb = 1"
    using assms(1) by (simp_all add: power2_eq_square add.commute)
  have g: "cg * cg + sg * sg = 1" "sg * sg + cg * cg = 1"
    using assms(2) by (simp_all add: power2_eq_square add.commute)
  have e1: "cb * cg * (cb * cg) + cb * sg * (cb * sg) + sb * sb = 1"
  proof -
    have "cb * cg * (cb * cg) + cb * sg * (cb * sg) + sb * sb = cb * cb * (cg * cg + sg * sg) + sb * sb"
      by (simp add: algebra_simps)
    then show ?thesis using b g by simp
  qed
  have e2: "sb * cg * (sb * cg) + sb * sg * (sb * sg) + cb * cb = 1"
  proof -
    have "sb * cg * (sb * cg) + sb * sg * (sb * sg) + cb * cb = sb * sb * (cg * cg + sg * sg) + cb * cb"
      by (simp add: algebra_simps)
    then show ?thesis using b g by simp
  qed
  have e3: "cb * cg * (cb * cg) + sg * sg + sb * cg * (sb * cg) = 1"
  proof -
    have "cb * cg * (cb * cg) + sg * sg + sb * cg * (sb * cg) = (cb * cb + sb * sb) * (cg * cg) + sg * sg"
      by (simp add: algebra_simps)
    then show ?thesis using b g by simp
  qed
  have e4: "cb * sg * (cb * sg) + cg * cg + sb * sg * (sb * sg) = 1"
  proof -
    have "cb * sg * (cb * sg) + cg * cg + sb * sg * (sb * sg) = (cb * cb + sb * sb) * (sg * sg) + cg * cg"
      by (simp add: algebra_simps)
    then show ?thesis using b g by simp
  qed
  have f1: "- (cb * cg * (sb * cg)) - cb * sg * (sb * sg) + sb * cb = 0"
  proof -
    have "- (cb * cg * (sb * cg)) - cb * sg * (sb * sg) + sb * cb
          = sb * cb * (1 - (cg * cg + sg * sg))"
      by (simp add: algebra_simps)
    then show ?thesis using g by simp
  qed
  have f2: "- (sb * cg * (cb * cg)) - sb * sg * (cb * sg) + cb * sb = 0"
  proof -
    have "- (sb * cg * (cb * cg)) - sb * sg * (cb * sg) + cb * sb
          = sb * cb * (1 - (cg * cg + sg * sg))"
      by (simp add: algebra_simps)
    then show ?thesis using g by simp
  qed
  have f3: "sg * cg - cb * cg * (cb * sg) = sb * cg * (sb * sg)"
  proof -
    have "sg * cg - cb * cg * (cb * sg) - sb * cg * (sb * sg)
          = sg * cg * (1 - (cb * cb + sb * sb))"
      by (simp add: algebra_simps)
    then show ?thesis using b by simp
  qed
  have f4: "cg * sg - cb * sg * (cb * cg) = sb * sg * (sb * cg)"
  proof -
    have "cg * sg - cb * sg * (cb * cg) - sb * sg * (sb * cg)
          = sg * cg * (1 - (cb * cb + sb * sb))"
      by (simp add: algebra_simps)
    then show ?thesis using b by simp
  qed
  show ?thesis
    unfolding orthogonal3_def identity3_def
    by (simp add: dot_mm_def transpose3 dot_vec3 b g e1 e2 e3 e4 f1 f2 f3 f4)
qed

lemma dot_mv3:
  "dot_mv [[a1, a2, a3], [b1, b2, b3], [c1, c2, c3]] [x, y, z]
   = [a1 * x + a2 * y + a3 * z, b1 * x + b2 * y + b3 * z, c1 * x + c2 * y + c3 * z]"
  by (simp add: dot_mv_def dot_vec3)

lemma rotation_matrix_form:
  assumes "g = pi - arctan2 y x" and "b = - arctan2 z \<bar>cos g * x - sin g * y\<bar>"
  shows "rotation_matrix x y z =
           [[cos b * cos g, - (cos b * sin g), sin b],
            [sin g, cos g, 0],
            [- (sin b * cos g), sin b * sin g, cos b]]"
proof -
  have ov0: "[cos g * x + - sin g * y + 0 * z, sin g * x + cos g * y + 0 * z,
              0 * x + 0 * y + 1 * z] ! 0 = cos g * x - sin g * y"
    by simp
  have ov2: "[cos g * x + - sin g * y + 0 * z, sin g * x + cos g * y + 0 * z,
              0 * x + 0 * y + 1 * z] ! 2 = z"
    by simp
  show ?thesis
    unfolding rotation_matrix_def Let_def assms(1)[symmetric] dot_mv3 ov0 ov2 assms(2)[symmetric]
    by (rule rot_form)
qed

lemma rotation_matrix_orthogonal: "orthogonal3 (rotation_matrix x y z)"
  unfolding rotation_matrix_form[OF refl refl]
  by (rule rot_orthogonal) (simp_all add: add.commute)

lemma rotate_xy:
  fixes x y :: real
  defines "g \<equiv> pi - arctan2 y x"
  shows "cos g * x - sin g * y = - sqrt (x\<^sup>2 + y\<^sup>2)" and "sin g * x + cos g * y = 0"
proof -
  have cg: "cos g = - cos (arctan2 y x)" and sg: "sin g = sin (arctan2 y x)"
    unfolding g_def by (simp_all add: cos_diff sin_diff)
  show "cos g * x - sin g * y = - sqrt (x\<^sup>2 + y\<^sup>2)"
  proof (cases "x \<noteq> 0 \<or> y \<noteq> 0")
    case True
    define rho where "rho = sqrt (x\<^sup>2 + y\<^sup>2)"
    have rp: "0 < rho" unfolding rho_def using True by (rule rho_pos)
    have sq: "rho * rho = x * x + y * y"
      unfolding rho_def by (simp flip: power2_eq_square)
    have "cos g * x - sin g * y = - (x * x + y * y) / rho"
      unfolding cg sg cos_arctan2[OF True] sin_arctan2[OF True] rho_def[symmetric]
      using rp by (simp add: divide_simps)
    also have "\<dots> = - rho" using rp sq by (simp add: field_simps)
    finally show ?thesis unfolding rho_def .
  next
    case False
    then show ?thesis by simp
  qed
  show "sin g * x + cos g * y = 0"
  proof (cases "x \<noteq> 0 \<or> y \<noteq> 0")
    case True
    show ?thesis
      unfolding cg sg cos_arctan2[OF True] sin_arctan2[OF True]
      by (simp add: field_simps)
  next
    case False
    then show ?thesis by simp
  qed
qed

lemma unit_angle:
  fixes rho z :: real
  assumes "rho\<^sup>2 + z\<^sup>2 = 1"
  shows "cos (arctan2 z rho) = rho" and "sin (arctan2 z rho) = z"
proof -
  have nz: "rho \<noteq> 0 \<or> z \<noteq> 0" using assms by auto
  show "cos (arctan2 z rho) = rho" using cos_arctan2[OF nz] assms by simp
  show "sin (arctan2 z rho) = z" using sin_arctan2[OF nz] assms by simp
qed

text \<open>
  Claim C2.  For every unit vector \<open>v = (x, y, z)\<close> the matrix that \<open>_rotation_matrix\<close>
  builds, \<open>Ry(\<beta>) * Rz(\<gamma>)\<close> with \<open>\<gamma> = \<pi> - atan2(y, x)\<close> and \<open>\<beta> = - atan2(z', |x'|)\<close> for
  \<open>(x', y', z') = Rz(\<gamma>) * v\<close>, is orthogonal and maps \<open>v\<close> to \<open>(-1, 0, 0)\<close>, exactly over
  the reals.
\<close>

theorem rotation_matrix_aligns:
  fixes x y z :: real
  assumes "x\<^sup>2 + y\<^sup>2 + z\<^sup>2 = 1"
  shows "dot_mv (rotation_matrix x y z) [x, y, z] = [- 1, 0, 0]
         \<and> orthogonal3 (rotation_matrix x y z)"
proof -
  define g where "g = pi - arctan2 y x"
  define rho where "rho = sqrt (x\<^sup>2 + y\<^sup>2)"
  define b where "b = - arctan2 z \<bar>cos g * x - sin g * y\<bar>"
  have r0: "0 \<le> rho" unfolding rho_def by simp
  have xy: "cos g * x - sin g * y = - rho" "sin g * x + cos g * y = 0"
    unfolding g_def rho_def by (rule rotate_xy)+
  have "rho\<^sup>2 = x\<^sup>2 + y\<^sup>2" unfolding rho_def by simp
  then have unit: "rho\<^sup>2 + z\<^sup>2 = 1" using assms by simp
  have beq: "b = - arctan2 z rho" unfolding b_def xy(1) using r0 by simp
  have cb: "cos b = rho" and sb: "sin b = - z"
    unfolding beq using unit_angle[OF unit] by simp_all
  have R: "rotation_matrix x y z =
      [[cos b * cos g, - (cos b * sin g), sin b],
       [sin g, cos g, 0],
       [- (sin b * cos g), sin b * sin g, cos b]]"
    by (rule rotation_matrix_form[OF g_def b_def])
  have c1: "cos b * cos g * x + - (cos b * sin g) * y + sin b * z = - 1"
  proof -
    have "cos b * cos g * x + - (cos b * sin g) * y + sin b * z
          = cos b * (cos g * x - sin g * y) + sin b * z"
      by (simp add: algebra_simps)
    also have "\<dots> = - (rho * rho + z * z)" unfolding xy cb sb by simp
    also have "\<dots> = - 1" using unit by (simp add: power2_eq_square)
    finally show ?thesis .
  qed
  have c3: "- (sin b * cos g) * x + sin b * sin g * y + cos b * z = 0"
  proof -
    have "- (sin b * cos g) * x + sin b * sin g * y + cos b * z
          = - (sin b * (cos g * x - sin g * y)) + cos b * z"
      by (simp add: algebra_simps)
    also have "\<dots> = 0" unfolding xy cb sb by simp
    finally show ?thesis .
  qed
  have c2: "sin g * x + cos g * y + 0 * z = 0" using xy(2) by simp
  have "dot_mv (rotation_matrix x y z) [x, y, z] = [- 1, 0, 0]"
    unfolding R dot_mv_def list.map dot_vec3 c1 c2 c3 by (rule refl)
  then show ?thesis using rotation_matrix_orthogonal by simp
qed

theorem rotation_matrix_aligns_witness:
  "dot_mv (rotation_matrix (3/5) (4/5) 0) [3/5, 4/5, 0] = [- 1, 0, 0]
   \<and> orthogonal3 (rotation_matrix (3/5) (4/5) 0)"
proof -
  have h: "(3/5 :: real)\<^sup>2 + (4/5)\<^sup>2 + 0\<^sup>2 = 1" by (simp add: power2_eq_square)
  show ?thesis by (rule rotation_matrix_aligns[OF h])
qed

section \<open>Facts about the cube faces\<close>

lemma spherical_components:
  fixes x y z :: real
  assumes "x \<noteq> 0 \<or> y \<noteq> 0 \<or> z \<noteq> 0"
  defines "r \<equiv> sqrt (x\<^sup>2 + y\<^sup>2 + z\<^sup>2)"
  defines "th \<equiv> arccos (z / r)"
  defines "ph \<equiv> arctan2 y x"
  shows "sin th * cos ph = x / r" and "sin th * sin ph = y / r" and "cos th = z / r"
proof -
  have pos: "0 < x\<^sup>2 + y\<^sup>2 + z\<^sup>2"
    using assms(1) by (metis add_pos_nonneg add_nonneg_pos zero_less_power2 zero_le_power2 add_nonneg_nonneg)
  have rp: "0 < r" unfolding r_def using pos by simp
  have r2: "r\<^sup>2 = x\<^sup>2 + y\<^sup>2 + z\<^sup>2" unfolding r_def using pos by simp
  have "z\<^sup>2 \<le> r\<^sup>2" unfolding r2 by simp
  then have "\<bar>z\<bar> \<le> \<bar>r\<bar>" by (simp only: abs_le_square_iff)
  then have zr: "\<bar>z / r\<bar> \<le> 1" using rp by simp
  show c: "cos th = z / r" unfolding th_def using zr by (rule cos_arccos_abs)
  define rho where "rho = sqrt (x\<^sup>2 + y\<^sup>2)"
  have r2nz: "r\<^sup>2 \<noteq> 0" using rp by simp
  have "1 - (z / r)\<^sup>2 = (r\<^sup>2 - z\<^sup>2) / r\<^sup>2"
    using r2nz by (simp add: power_divide diff_divide_distrib)
  also have "r\<^sup>2 - z\<^sup>2 = x\<^sup>2 + y\<^sup>2" unfolding r2 by simp
  finally have "1 - (z / r)\<^sup>2 = (x\<^sup>2 + y\<^sup>2) / r\<^sup>2" .
  then have "sqrt (1 - (z / r)\<^sup>2) = rho / r"
    unfolding rho_def using rp by (simp add: real_sqrt_divide)
  then have s: "sin th = rho / r" unfolding th_def using sin_arccos_abs[OF zr] by simp
  show "sin th * cos ph = x / r"
  proof (cases "x \<noteq> 0 \<or> y \<noteq> 0")
    case True
    have "0 < rho" unfolding rho_def using True by (rule rho_pos)
    then show ?thesis
      unfolding s ph_def cos_arctan2[OF True] rho_def[symmetric] by simp
  next
    case False
    then have "rho = 0" unfolding rho_def by simp
    then show ?thesis unfolding s using False by simp
  qed
  show "sin th * sin ph = y / r"
  proof (cases "x \<noteq> 0 \<or> y \<noteq> 0")
    case True
    have "0 < rho" unfolding rho_def using True by (rule rho_pos)
    then show ?thesis
      unfolding s ph_def sin_arctan2[OF True] rho_def[symmetric] by simp
  next
    case False
    then have "rho = 0" unfolding rho_def by simp
    then show ?thesis unfolding s using False by simp
  qed
qed

lemma to_2d_elem_plane:
  fixes xs ys zs :: real and reg :: Region
  defines "c \<equiv> [xs, ys, zs] ! ax_to_idx (plane_axis_3d reg)"
  defines "q \<equiv> [plane_val_3d reg * xs / c, plane_val_3d reg * ys / c, plane_val_3d reg * zs / c]"
  assumes "c \<noteq> 0"
  shows "to_2d_elem reg (xs, ys, zs)
         = (val2d_for_3d (y_map reg) (q ! ax_to_idx (axis_3d (y_map reg))),
            val2d_for_3d (x_map reg) (q ! ax_to_idx (axis_3d (x_map reg))))"
proof -
  define r where "r = sqrt (xs\<^sup>2 + ys\<^sup>2 + zs\<^sup>2)"
  define th where "th = arccos (zs / r)"
  define ph where "ph = arctan2 ys xs"
  have nz: "xs \<noteq> 0 \<or> ys \<noteq> 0 \<or> zs \<noteq> 0"
    using assms(3) unfolding c_def by (cases "plane_axis_3d reg") (auto simp: ax_to_idx_def)
  note sc = spherical_components[OF nz, folded r_def, folded th_def ph_def]
  have rp: "r \<noteq> 0"
  proof
    assume "r = 0"
    then have "xs\<^sup>2 + ys\<^sup>2 + zs\<^sup>2 = 0" unfolding r_def by simp
    then have "xs = 0 \<and> ys = 0 \<and> zs = 0"
      by (metis add_nonneg_eq_0_iff zero_le_power2 power_eq_0_iff add_nonneg_nonneg)
    then show False using nz by simp
  qed
  define r' where "r' = (case plane_axis_3d reg of
                      X \<Rightarrow> plane_val_3d reg / (sin th * cos ph)
                    | Y \<Rightarrow> plane_val_3d reg / (sin th * sin ph)
                    | Z \<Rightarrow> plane_val_3d reg / cos th)"
  have r'eq: "r' = plane_val_3d reg * r / c"
    unfolding r'_def c_def sc by (cases "plane_axis_3d reg") (simp_all add: ax_to_idx_def)
  have cart: "spherical_to_cartesian r' th ph = (r' * (xs / r), r' * (ys / r), r' * (zs / r))"
    unfolding spherical_to_cartesian_def Let_def mult.assoc sc by (rule refl)
  have comp: "r' * (v / r) = plane_val_3d reg * v / c" for v
    unfolding r'eq using rp by simp
  have sph: "cartesian_to_spherical xs ys zs = (r, th, ph)"
    unfolding cartesian_to_spherical_def Let_def r_def th_def ph_def by (rule refl)
  show ?thesis
    unfolding to_2d_elem_def prod.case sph Let_def r'_def[symmetric] cart comp q_def
    by (rule refl)
qed

lemma lerp_range:
  fixes u a2 b2 :: real
  assumes "\<bar>u\<bar> \<le> 1" and "(a1 = - 1 \<and> b1 = 1) \<or> (a1 = 1 \<and> b1 = - 1)" and "a2 \<le> b2"
  shows "a2 \<le> lerp u a1 b1 a2 b2" and "lerp u a1 b1 a2 b2 \<le> b2"
proof -
  define t where "t = (u - a1) / (b1 - a1)"
  have t: "0 \<le> t" "t \<le> 1" using assms(1,2) unfolding t_def by (auto simp: field_simps)
  have d: "b1 - a1 \<noteq> 0" using assms(2) by auto
  have eq: "lerp u a1 b1 a2 b2 = a2 + t * (b2 - a2)"
    unfolding lerp_def t_def using d by (simp add: field_simps)
  have "0 \<le> t * (b2 - a2)" using t(1) assms(3) by simp
  then show "a2 \<le> lerp u a1 b1 a2 b2" unfolding eq by simp
  have "t * (b2 - a2) \<le> 1 * (b2 - a2)" using t(2) assms(3) by (intro mult_right_mono) auto
  then show "lerp u a1 b1 a2 b2 \<le> b2" unfolding eq by simp
qed

lemma abs_comp: "[\<bar>xs\<bar>, \<bar>ys\<bar>, \<bar>zs :: real\<bar>] ! ax_to_idx a = \<bar>[xs, ys, zs] ! ax_to_idx a\<bar>"
  by (cases a) (simp_all add: ax_to_idx_def)

lemma scaled_comp:
  "[k * xs / c, k * ys / c, k * zs / c :: real] ! ax_to_idx a = k * ([xs, ys, zs] ! ax_to_idx a) / c"
  by (cases a) (simp_all add: ax_to_idx_def)

lemma mask_components:
  assumes "within_cubeface_mask reg (xs, ys, zs)"
  defines "c \<equiv> [xs, ys, zs] ! ax_to_idx (plane_axis_3d reg)"
  shows "c \<noteq> 0"
    and "\<bar>[xs, ys, zs] ! ax_to_idx (axis_3d (x_map reg))\<bar> < \<bar>c\<bar>"
    and "\<bar>[xs, ys, zs] ! ax_to_idx (axis_3d (y_map reg))\<bar> < \<bar>c\<bar>"
  using assms(1) unfolding c_def within_cubeface_mask_def Let_def prod.case abs_comp fst_conv snd_conv
  by auto

lemma region_in_range:
  fixes reg :: Region and xs ys zs :: real
  assumes pv: "\<bar>plane_val_3d reg\<bar> = 1"
    and x3: "interval_3d (x_map reg) = (- 1, 1) \<or> interval_3d (x_map reg) = (1, - 1)"
    and y3: "interval_3d (y_map reg) = (- 1, 1) \<or> interval_3d (y_map reg) = (1, - 1)"
    and x2: "fst (interval_2d (x_map reg)) \<le> snd (interval_2d (x_map reg))"
    and y2: "fst (interval_2d (y_map reg)) \<le> snd (interval_2d (y_map reg))"
    and m: "within_cubeface_mask reg (xs, ys, zs)"
  shows "to_2d reg [(xs, ys, zs)] = Inr [to_2d_elem reg (xs, ys, zs)]"
    and "within_region_mask reg (fst (to_2d_elem reg (xs, ys, zs))) (snd (to_2d_elem reg (xs, ys, zs)))"
proof -
  show "to_2d reg [(xs, ys, zs)] = Inr [to_2d_elem reg (xs, ys, zs)]"
    using m by (simp add: to_2d_def)
  define c where "c = [xs, ys, zs] ! ax_to_idx (plane_axis_3d reg)"
  note mc = mask_components[OF m, folded c_def]
  have bound: "\<bar>plane_val_3d reg * v / c\<bar> \<le> 1" if "\<bar>v\<bar> < \<bar>c\<bar>" for v
  proof -
    have "\<bar>plane_val_3d reg * v / c\<bar> = \<bar>v\<bar> / \<bar>c\<bar>" using pv by (simp add: abs_mult)
    also have "\<dots> \<le> 1" using that by simp
    finally show ?thesis .
  qed
  let ?uy = "plane_val_3d reg * ([xs, ys, zs] ! ax_to_idx (axis_3d (y_map reg))) / c"
  let ?ux = "plane_val_3d reg * ([xs, ys, zs] ! ax_to_idx (axis_3d (x_map reg))) / c"
  have el: "to_2d_elem reg (xs, ys, zs) = (val2d_for_3d (y_map reg) ?uy, val2d_for_3d (x_map reg) ?ux)"
    using to_2d_elem_plane[of xs ys zs reg, folded c_def, OF mc(1)]
    unfolding scaled_comp .
  have by1: "\<bar>?uy\<bar> \<le> 1" using mc(3) by (rule bound)
  have bx1: "\<bar>?ux\<bar> \<le> 1" using mc(2) by (rule bound)
  have y3': "(fst (interval_3d (y_map reg)) = - 1 \<and> snd (interval_3d (y_map reg)) = 1)
           \<or> (fst (interval_3d (y_map reg)) = 1 \<and> snd (interval_3d (y_map reg)) = - 1)"
    using y3 by auto
  have x3': "(fst (interval_3d (x_map reg)) = - 1 \<and> snd (interval_3d (x_map reg)) = 1)
           \<or> (fst (interval_3d (x_map reg)) = 1 \<and> snd (interval_3d (x_map reg)) = - 1)"
    using x3 by auto
  note ly = lerp_range[OF by1 y3' y2, folded val2d_for_3d_def]
  note lx = lerp_range[OF bx1 x3' x2, folded val2d_for_3d_def]
  show "within_region_mask reg (fst (to_2d_elem reg (xs, ys, zs))) (snd (to_2d_elem reg (xs, ys, zs)))"
    unfolding el fst_conv snd_conv within_region_mask_def
    using ly lx x2 y2 by (simp add: min_def max_def)
qed

lemma constructed_regions:
  assumes "CubemapProjection_init sz = Inr p" and "reg \<in> set (regions p)"
  shows "\<bar>plane_val_3d reg\<bar> = 1"
    and "interval_3d (x_map reg) = (- 1, 1) \<or> interval_3d (x_map reg) = (1, - 1)"
    and "interval_3d (y_map reg) = (- 1, 1) \<or> interval_3d (y_map reg) = (1, - 1)"
    and "fst (interval_2d (x_map reg)) \<le> snd (interval_2d (x_map reg))"
    and "fst (interval_2d (y_map reg)) \<le> snd (interval_2d (y_map reg))"
proof -
  have p: "p = projr (CubemapProjection_init sz)" using assms(1) by simp
  have r: "reg \<in> set (regions (projr (CubemapProjection_init sz)))" using assms(2) p by simp
  show "\<bar>plane_val_3d reg\<bar> = 1"
    using r unfolding CubemapProjection_init_eq by (auto simp: regions_def mk_region_def)
  show "interval_3d (x_map reg) = (- 1, 1) \<or> interval_3d (x_map reg) = (1, - 1)"
    using r unfolding CubemapProjection_init_eq by (auto simp: regions_def mk_region_def)
  show "interval_3d (y_map reg) = (- 1, 1) \<or> interval_3d (y_map reg) = (1, - 1)"
    using r unfolding CubemapProjection_init_eq by (auto simp: regions_def mk_region_def)
  show "fst (interval_2d (x_map reg)) \<le> snd (interval_2d (x_map reg))"
    using r unfolding CubemapProjection_init_eq by (auto simp: regions_def mk_region_def)
  show "fst (interval_2d (y_map reg)) \<le> snd (interval_2d (y_map reg))"
    using r unfolding CubemapProjection_init_eq by (auto simp: regions_def mk_region_def)
qed

lemma one_face_claims:
  fixes xs ys zs :: real
  assumes "CubemapProjection_init sz = Inr p"
    and "(\<bar>ys\<bar> < \<bar>xs\<bar> \<and> \<bar>zs\<bar> < \<bar>xs\<bar>) \<or> (\<bar>xs\<bar> < \<bar>ys\<bar> \<and> \<bar>zs\<bar> < \<bar>ys\<bar>)
          \<or> (\<bar>xs\<bar> < \<bar>zs\<bar> \<and> \<bar>ys\<bar> < \<bar>zs\<bar>)"
  shows "\<exists>reg. filter (\<lambda>r. within_cubeface_mask r (xs, ys, zs)) (regions p) = [reg]"
proof -
  have p: "p = projr (CubemapProjection_init sz)" using assms(1) by simp
  consider (xpos) "0 < xs" "\<bar>ys\<bar> < \<bar>xs\<bar>" "\<bar>zs\<bar> < \<bar>xs\<bar>"
    | (xneg) "xs < 0" "\<bar>ys\<bar> < \<bar>xs\<bar>" "\<bar>zs\<bar> < \<bar>xs\<bar>"
    | (ypos) "0 < ys" "\<bar>xs\<bar> < \<bar>ys\<bar>" "\<bar>zs\<bar> < \<bar>ys\<bar>"
    | (yneg) "ys < 0" "\<bar>xs\<bar> < \<bar>ys\<bar>" "\<bar>zs\<bar> < \<bar>ys\<bar>"
    | (zpos) "0 < zs" "\<bar>xs\<bar> < \<bar>zs\<bar>" "\<bar>ys\<bar> < \<bar>zs\<bar>"
    | (zneg) "zs < 0" "\<bar>xs\<bar> < \<bar>zs\<bar>" "\<bar>ys\<bar> < \<bar>zs\<bar>"
    using assms(2) by fastforce
  then show ?thesis
  proof cases
    case xpos
    then have "filter (\<lambda>r. within_cubeface_mask r (xs, ys, zs)) (regions p) = [back_region p]"
      unfolding p CubemapProjection_init_eq
      by (simp add: regions_def mask_mk_region ax_to_idx_def)
    then show ?thesis by blast
  next
    case xneg
    then have "filter (\<lambda>r. within_cubeface_mask r (xs, ys, zs)) (regions p) = [front_region p]"
      unfolding p CubemapProjection_init_eq
      by (simp add: regions_def mask_mk_region ax_to_idx_def)
    then show ?thesis by blast
  next
    case ypos
    then have "filter (\<lambda>r. within_cubeface_mask r (xs, ys, zs)) (regions p) = [right_region p]"
      unfolding p CubemapProjection_init_eq
      by (simp add: regions_def mask_mk_region ax_to_idx_def)
    then show ?thesis by blast
  next
    case yneg
    then have "filter (\<lambda>r. within_cubeface_mask r (xs, ys, zs)) (regions p) = [left_region p]"
      unfolding p CubemapProjection_init_eq
      by (simp add: regions_def mask_mk_region ax_to_idx_def)
    then show ?thesis by blast
  next
    case zpos
    then have "filter (\<lambda>r. within_cubeface_mask r (xs, ys, zs)) (regions p) = [top_region p]"
      unfolding p CubemapProjection_init_eq
      by (simp add: regions_def mask_mk_region ax_to_idx_def)
    then show ?thesis by blast
  next
    case zneg
    then have "filter (\<lambda>r. within_cubeface_mask r (xs, ys, zs)) (regions p) = [bottom_region p]"
      unfolding p CubemapProjection_init_eq
      by (simp add: regions_def mask_mk_region ax_to_idx_def)
    then show ?thesis by blast
  qed
qed

text \<open>
  Claim C3.  For a unit vector whose largest absolute component is strictly larger than the
  other two, exactly one of the six regions of a cubemap projection passes
  \<open>within_cubeface_mask\<close>, and \<open>to_2d\<close> of that region maps the vector to a point inside
  the region's two 2D intervals.
\<close>

theorem cmp_partition:
  fixes xs ys zs :: real
  assumes "CubemapProjection_init sz = Inr p"
    and "xs\<^sup>2 + ys\<^sup>2 + zs\<^sup>2 = 1"
    and "(\<bar>ys\<bar> < \<bar>xs\<bar> \<and> \<bar>zs\<bar> < \<bar>xs\<bar>) \<or> (\<bar>xs\<bar> < \<bar>ys\<bar> \<and> \<bar>zs\<bar> < \<bar>ys\<bar>)
          \<or> (\<bar>xs\<bar> < \<bar>zs\<bar> \<and> \<bar>ys\<bar> < \<bar>zs\<bar>)"
  shows "\<exists>reg y x. filter (\<lambda>r. within_cubeface_mask r (xs, ys, zs)) (regions p) = [reg]
            \<and> to_2d reg [(xs, ys, zs)] = Inr [(y, x)]
            \<and> within_region_mask reg y x"
proof -
  obtain reg where f: "filter (\<lambda>r. within_cubeface_mask r (xs, ys, zs)) (regions p) = [reg]"
    using one_face_claims[OF assms(1,3)] by blast
  have "reg \<in> set (filter (\<lambda>r. within_cubeface_mask r (xs, ys, zs)) (regions p))"
    unfolding f by simp
  then have mem: "reg \<in> set (regions p)" and m: "within_cubeface_mask reg (xs, ys, zs)"
    by simp_all
  note c = constructed_regions[OF assms(1) mem]
  note r = region_in_range[OF c m]
  obtain y x where yx: "to_2d_elem reg (xs, ys, zs) = (y, x)" by (cases "to_2d_elem reg (xs, ys, zs)")
  show ?thesis using f r unfolding yx by auto
qed

theorem cmp_partition_witness:
  "\<exists>p y x. CubemapProjection_init (64, 96) = Inr p
      \<and> filter (\<lambda>r. within_cubeface_mask r (0, 0, 1)) (regions p) = [top_region p]
      \<and> to_2d (top_region p) [(0, 0, 1)] = Inr [(y, x)]
      \<and> within_region_mask (top_region p) y x"
proof -
  obtain p where p: "CubemapProjection_init (64, 96) = Inr p"
    by (simp add: CubemapProjection_init_eq)
  have u: "(0::real)\<^sup>2 + 0\<^sup>2 + 1\<^sup>2 = 1" by simp
  have d: "(\<bar>0::real\<bar> < \<bar>0::real\<bar> \<and> \<bar>1::real\<bar> < \<bar>0::real\<bar>)
         \<or> (\<bar>0::real\<bar> < \<bar>0::real\<bar> \<and> \<bar>1::real\<bar> < \<bar>0::real\<bar>)
         \<or> (\<bar>0::real\<bar> < \<bar>1::real\<bar> \<and> \<bar>0::real\<bar> < \<bar>1::real\<bar>)" by simp
  obtain reg y x where r: "filter (\<lambda>r. within_cubeface_mask r (0, 0, 1)) (regions p) = [reg]"
      "to_2d reg [(0, 0, 1)] = Inr [(y, x)]" "within_region_mask reg y x"
    using cmp_partition[OF p u d] by blast
  have pe: "p = projr (CubemapProjection_init (64, 96))" using p by simp
  have "filter (\<lambda>r. within_cubeface_mask r (0, 0, 1)) (regions p) = [top_region p]"
    unfolding pe CubemapProjection_init_eq
    by (simp add: regions_def mask_mk_region ax_to_idx_def)
  then have "reg = top_region p" using r(1) by simp
  then show ?thesis using p r by blast
qed

section \<open>Facts about the face length of cmp_size\<close>

text \<open>
  On positive inputs the face length of \<open>cmp_size\<close> is a non-negative multiple of the block
  size; it is below the block size, and then 0, exactly when \<open>v\<close> is below a block and at
  least half a block.
\<close>

lemma cmp_size_face_length:
  fixes H W B :: int
  assumes "0 < H" "0 < W" "0 < B"
  defines "v \<equiv> \<lfloor>sqrt (real_of_int (H * W) / 6)\<rfloor>"
  shows "\<exists>F. cmp_size (H, W) B = Inr (2 * F, 3 * F) \<and> F mod B = 0 \<and> 0 \<le> F
          \<and> (B \<le> F \<longleftrightarrow> B \<le> v \<or> 2 * (v mod B) < B)"
proof -
  define m where "m = v mod B"
  have m: "0 \<le> m" "m < B" using assms(3) by (simp_all add: m_def)
  have v0: "0 \<le> v" unfolding v_def by (rule cmp_size_v_bounds(1)[OF assms(1,2)])
  have mv: "m \<le> v" unfolding m_def using v0 assms(3) by (simp add: zmod_le_nonneg_dividend)
  have vm: "B dvd v - m" by (simp add: m_def dvd_minus_mod)
  define F where "F = (if 2 * m < B then v + (B - m) else v - m)"
  have eq: "cmp_size (H, W) B = Inr (2 * F, 3 * F)"
    unfolding F_def m_def v_def by (rule cmp_size_unfold[OF assms(1,2,3)])
  have dv: "B dvd F"
  proof (cases "2 * m < B")
    case True
    have "F = (v - m) + B" using True by (simp add: F_def)
    then show ?thesis using vm by simp
  next
    case False
    then show ?thesis using vm by (simp add: F_def)
  qed
  have F0: "0 \<le> F" using m mv by (simp add: F_def)
  have iff: "B \<le> F \<longleftrightarrow> B \<le> v \<or> 2 * m < B"
  proof (cases "2 * m < B")
    case True
    then show ?thesis using mv by (simp add: F_def)
  next
    case False
    show ?thesis
    proof (cases "B \<le> v")
      case True
      have "0 < v div B" using True assms(3) by (simp add: pos_imp_zdiv_pos_iff)
      then have "1 \<le> v div B" by linarith
      then have "B * 1 \<le> B * (v div B)" using assms(3) by (intro mult_left_mono) auto
      moreover have "v - m = B * (v div B)" unfolding m_def by (simp add: minus_mod_eq_mult_div)
      ultimately show ?thesis using False True by (simp add: F_def)
    next
      case nle: False
      then have "v mod B = v" using v0 by simp
      then show ?thesis using False nle assms(3) by (simp add: F_def m_def)
    qed
  qed
  show ?thesis using eq dv F0 iff unfolding m_def by auto
qed

text \<open>
  Claim C5 says that \<open>cmp_size\<close> returns \<open>(2F, 3F)\<close> with \<open>F\<close> a multiple of the block size
  and \<open>F \<ge> B\<close>, for all positive sizes and block sizes.  For a 50 by 50 image and the block
  size 32 the code has \<open>v = 20\<close>, whose remainder 20 is not below half a block, and so goes
  down to the multiple 0, which is farther from 20 than 32 is: it returns the empty size
  \<open>(0, 0)\<close>, and \<open>F \<ge> B\<close> fails.
\<close>

theorem cmp_size_below_block:
  "cmp_size (50, 50) 32 = Inr (2 * 0, 3 * 0) \<and> \<not> (32::int) \<le> 0"
  by (simp add: cmp_size_50_50_32)

section \<open>Facts about from_sphere of the cubemap projection\<close>









section \<open>Facts about the shift of resample_fsmr\<close>

lemma resample_fsmr_store:
  "fst (resample_fsmr h s sv t K odc sigma shift T w)
   = (h(s := add_shift shift (h s)))(t := add_shift shift ((h(s := add_shift shift (h s))) t))"
  by (simp add: resample_fsmr_def Let_def)

lemma add_shift_nth:
  "i < length mesh \<Longrightarrow> add_shift shift mesh ! i = (fst (mesh ! i) + shift, snd (mesh ! i) + shift)"
  by (simp add: add_shift_def case_prod_beta)

lemma add_shift_length: "length (add_shift shift mesh) = length mesh"
  by (simp add: add_shift_def)

text \<open>
  Claim C7, as the code has it.  \<open>resample_fsmr\<close> adds the shift to the caller's two point
  arrays in place: after the call, for different arrays, every coordinate of the source mesh
  and of the target mesh is the old coordinate plus the shift, whatever the result of the
  call; every other array is unchanged, and with the shift 0 so are the two meshes.
\<close>

theorem resample_fsmr_shifts_in_place:
  assumes "h' = fst (resample_fsmr h s sv t K odc sigma shift T w)" and "s \<noteq> t"
  shows "length (h' s) = length (h s) \<and> length (h' t) = length (h t)
       \<and> (\<forall>i<length (h s). h' s ! i = (fst (h s ! i) + shift, snd (h s ! i) + shift))
       \<and> (\<forall>i<length (h t). h' t ! i = (fst (h t ! i) + shift, snd (h t ! i) + shift))
       \<and> (\<forall>a. a \<noteq> s \<and> a \<noteq> t \<longrightarrow> h' a = h a)
       \<and> (shift = 0 \<longrightarrow> h' = h)"
proof -
  have hs: "h' s = add_shift shift (h s)" and ht: "h' t = add_shift shift (h t)"
    and ha: "\<And>a. a \<noteq> s \<Longrightarrow> a \<noteq> t \<Longrightarrow> h' a = h a"
    using assms by (simp_all add: resample_fsmr_store)
  have z: "add_shift 0 mesh = mesh" for mesh by (simp add: add_shift_def)
  have "shift = 0 \<longrightarrow> h' = h"
  proof
    assume "shift = 0"
    then have "h' a = h a" for a using hs ht ha[of a] z by (cases "a = s"; cases "a = t") auto
    then show "h' = h" by (rule ext)
  qed
  then show ?thesis using hs ht ha by (simp add: add_shift_length add_shift_nth)
qed

theorem resample_fsmr_shifts_in_place_witness:
  "fst (resample_fsmr (const_store [(0, 0)]) 0 [1] 1 1 1 1 16 1 None) 0 ! 0 = (16, 16)"
proof -
  have ne: "(0::nat) \<noteq> 1" by simp
  show ?thesis
    using resample_fsmr_shifts_in_place[OF refl ne, of "const_store [(0, 0)]" "[1]" 1 1 1 16 1 None]
    by (simp add: const_store_def)
qed

text \<open>
  Claim C7 as stated requires the caller's arrays to hold the same values after the call.
  With the shift 16 the source mesh \<open>[(0, 0)]\<close> at address 0 holds \<open>[(16, 16)]\<close> afterwards.
\<close>

theorem resample_fsmr_mutates_counterexample:
  "fst (resample_fsmr (const_store [(0, 0)]) 0 [1] 1 1 1 1 16 1 None) 0 = [(16, 16)]
   \<and> const_store [(0, 0)] 0 = [(0, 0)]"
  by (simp add: resample_fsmr_store const_store_def add_shift_def)

section \<open>Facts about fsmr\<close>





lemma broadcast_same:
  "length xs = length ys \<Longrightarrow> broadcast f xs ys = Inr (map2 f xs ys)"
  by (simp add: broadcast_def bc_ok_def bc_map2_def)



lemma index_pairs_length: "length (index_pairs n) = n * n"
  by (simp add: index_pairs_def length_concat comp_def sum_list_triv)

lemma index_pairs_set: "set (index_pairs n) = {(k, l). k < n \<and> l < n}"
  by (auto simp: index_pairs_def)


lemma index_pairs_head:
  assumes "0 < n"
  shows "\<exists>kl. index_pairs n = (0, 0) # kl"
proof -
  have u: "[0..<n] = 0 # [Suc 0..<n]" using assms by (rule upt_conv_Cons)
  have "index_pairs n = concat (map (\<lambda>k. map (\<lambda>l. (k, l)) [0..<n]) (0 # [Suc 0..<n]))"
    unfolding index_pairs_def using u by simp
  also have "\<dots> = map (\<lambda>l. (0, l)) (0 # [Suc 0..<n])
                    @ concat (map (\<lambda>k. map (\<lambda>l. (k, l)) [0..<n]) [Suc 0..<n])"
    using u by simp
  finally show ?thesis by simp
qed

lemma mgrid_nonneg: "0 \<le> K \<Longrightarrow> mgrid K = Inr (index_pairs (nat K))"
  by (simp add: mgrid_def)


lemma dct_basis_dict_zero: "dct_basis_dict x y 0 = Inl ZeroDivisionError"
  by (simp add: dct_basis_dict_def)


lemma dct_basis_dict_shape:
  assumes "1 \<le> K" and "length x = length y"
  shows "\<exists>rows. dct_basis_dict x y K = Inr (length x, rows) \<and> length rows = nat K * nat K
           \<and> (\<forall>row\<in>set rows. length row = length x)"
proof -
  have m: "mgrid K = Inr (index_pairs (nat K))" using assms(1) by (intro mgrid_nonneg) simp
  show ?thesis
    using assms by (auto simp: dct_basis_dict_def m bc_ok_def bc_map2_def Let_def index_pairs_length)
qed

lemma dct_frequency_weighting_nonneg:
  assumes "0 \<le> K"
  shows "dct_frequency_weighting K sigma
         = Inr (map (\<lambda>(k, l). np_power sigma (sqrt ((real k)\<^sup>2 + (real l)\<^sup>2))) (index_pairs (nat K)))"
  by (simp add: dct_frequency_weighting_def mgrid_nonneg[OF assms])









lemma dot_vec_ones:
  "length xs = N \<Longrightarrow> dot_vec xs (replicate N 1) = sum_list xs"
proof (induction xs arbitrary: N)
  case Nil
  then show ?case by (simp add: dot_vec_def)
next
  case (Cons x xs)
  then obtain M where N: "N = Suc M" and M: "length xs = M" by (cases N) auto
  have "dot_vec xs (replicate M 1) = sum_list xs" using M by (rule Cons.IH)
  then show ?case unfolding N by (simp add: dot_vec_def)
qed

lemma energy_nonzero:
  assumes "length row = N" and "\<exists>b\<in>set row. b \<noteq> 0"
  shows "dot_vec (map (\<lambda>b. b\<^sup>2) row) (replicate N 1) \<noteq> (0::real)"
proof -
  have e: "dot_vec (map (\<lambda>b. b\<^sup>2) row) (replicate N 1) = sum_list (map (\<lambda>b. b\<^sup>2) row)"
    using assms(1) by (intro dot_vec_ones) simp
  have nn: "\<forall>v\<in>set (map (\<lambda>b. b\<^sup>2) row). 0 \<le> v" by auto
  have "sum_list (map (\<lambda>b. b\<^sup>2) row) = 0 \<longleftrightarrow> (\<forall>v\<in>set (map (\<lambda>b. b\<^sup>2) row). v = 0)"
    using nn by (intro sum_list_nonneg_eq_0_iff) auto
  then show ?thesis unfolding e using assms(2) by auto
qed






section \<open>Facts about the failures of resample_fsmr\<close>




lemma weights_nonzero: "K \<noteq> 0 \<Longrightarrow> weights K i j \<noteq> 0"
  by (simp add: weights_def)

lemma dct_basis_dict_mesh:
  assumes "1 \<le> K"
  shows "dct_basis_dict (map fst mesh) (map snd mesh) K
         = Inr (length mesh,
                map (\<lambda>(k, l).
                       map (\<lambda>(xn, yn).
                          cos ((pi / real_of_int K) * (yn - 0.5) * real k)
                            * cos ((pi / real_of_int K) * (xn - 0.5) * real l)
                            * weights (real_of_int K) (if k = 0 then 1 else 0) (if l = 0 then 1 else 0))
                         mesh)
                    (index_pairs (nat K)))"
proof -
  have m: "map2 f (map snd mesh) (map fst mesh) = map (\<lambda>(xn, yn). f yn xn) mesh" for f :: "real \<Rightarrow> real \<Rightarrow> real"
    by (induction mesh) auto
  have g: "mgrid K = Inr (index_pairs (nat K))" using assms by (intro mgrid_nonneg) simp
  show ?thesis
    using assms by (simp add: dct_basis_dict_def g bc_ok_def bc_map2_def Let_def m)
qed

lemma dct_rows_nonzero:
  assumes K: "1 \<le> K"
    and en: "\<forall>k<nat K. \<forall>l<nat K. \<exists>(xn, yn)\<in>set mesh.
               cos ((pi / real_of_int K) * (yn - 0.5) * real k)
                 * cos ((pi / real_of_int K) * (xn - 0.5) * real l) \<noteq> 0"
    and B: "dct_basis_dict (map fst mesh) (map snd mesh) K = Inr (N, rows)"
  shows "\<forall>row\<in>set rows. \<exists>b\<in>set row. b \<noteq> 0"
proof
  fix row assume r: "row \<in> set rows"
  have K0: "real_of_int K \<noteq> 0" using K by auto
  have rows: "rows = map (\<lambda>(k, l).
                       map (\<lambda>(xn, yn).
                          cos ((pi / real_of_int K) * (yn - 0.5) * real k)
                            * cos ((pi / real_of_int K) * (xn - 0.5) * real l)
                            * weights (real_of_int K) (if k = 0 then 1 else 0) (if l = 0 then 1 else 0))
                         mesh)
                    (index_pairs (nat K))"
    using B unfolding dct_basis_dict_mesh[OF K] by simp
  obtain k l where kl: "(k, l) \<in> set (index_pairs (nat K))"
      and row: "row = map (\<lambda>(xn, yn).
                          cos ((pi / real_of_int K) * (yn - 0.5) * real k)
                            * cos ((pi / real_of_int K) * (xn - 0.5) * real l)
                            * weights (real_of_int K) (if k = 0 then 1 else 0) (if l = 0 then 1 else 0))
                         mesh"
    using r unfolding rows by auto
  have "k < nat K" "l < nat K" using kl unfolding index_pairs_set by auto
  then obtain xn yn where p: "(xn, yn) \<in> set mesh"
      "cos ((pi / real_of_int K) * (yn - 0.5) * real k)
         * cos ((pi / real_of_int K) * (xn - 0.5) * real l) \<noteq> 0"
    using en by blast
  have "cos ((pi / real_of_int K) * (yn - 0.5) * real k)
          * cos ((pi / real_of_int K) * (xn - 0.5) * real l)
          * weights (real_of_int K) (if k = 0 then 1 else 0) (if l = 0 then 1 else 0) \<noteq> 0"
    using p(2) weights_nonzero[OF K0] by simp
  moreover have "cos ((pi / real_of_int K) * (yn - 0.5) * real k)
          * cos ((pi / real_of_int K) * (xn - 0.5) * real l)
          * weights (real_of_int K) (if k = 0 then 1 else 0) (if l = 0 then 1 else 0) \<in> set row"
    unfolding row using p(1) by (auto intro!: image_eqI[where x="(xn, yn)"])
  ultimately show "\<exists>b\<in>set row. b \<noteq> 0" by blast
qed









section \<open>Facts about fsmr on a constant signal\<close>

lemma sum_list_shifted_squares:
  fixes xs :: "real list"
  shows "sum_list (map (\<lambda>x. (x - t)\<^sup>2) xs)
         = sum_list (map (\<lambda>x. x\<^sup>2) xs) - 2 * t * sum_list xs + real (length xs) * t\<^sup>2"
  by (induction xs) (simp_all add: power2_eq_square algebra_simps)

lemma sum_list_square_le:
  fixes xs :: "real list"
  shows "(sum_list xs)\<^sup>2 \<le> real (length xs) * sum_list (map (\<lambda>x. x\<^sup>2) xs)"
proof (cases "xs = []")
  case True
  then show ?thesis by simp
next
  case False
  define n where "n = real (length xs)"
  define S where "S = sum_list xs"
  define Q where "Q = sum_list (map (\<lambda>x. x\<^sup>2) xs)"
  have np: "0 < n" unfolding n_def using False by simp
  have "0 \<le> sum_list (map (\<lambda>x. (x - S / n)\<^sup>2) xs)"
    by (rule sum_list_nonneg) auto
  then have "0 \<le> Q - 2 * (S / n) * S + n * (S / n)\<^sup>2"
    unfolding sum_list_shifted_squares Q_def S_def n_def .
  moreover have "Q - 2 * (S / n) * S + n * (S / n)\<^sup>2 = Q - S\<^sup>2 / n"
    using np by (simp add: power2_eq_square field_simps)
  ultimately have "S\<^sup>2 / n \<le> Q" by simp
  then have "S\<^sup>2 \<le> Q * n" using np by (simp add: pos_divide_le_eq)
  then show ?thesis unfolding S_def Q_def n_def by (simp add: mult.commute)
qed

lemma dot_vec_const:
  "length xs = N \<Longrightarrow> dot_vec xs (replicate N v) = v * sum_list xs"
proof (induction xs arbitrary: N)
  case Nil
  then show ?case by (simp add: dot_vec_def)
next
  case (Cons x xs)
  then obtain M where N: "N = Suc M" and M: "length xs = M" by (cases N) auto
  have "dot_vec xs (replicate M v) = v * sum_list xs" using M by (rule Cons.IH)
  then show ?case unfolding N by (simp add: dot_vec_def algebra_simps)
qed

lemma argmax_from_keeps:
  "\<forall>x\<in>set vs. x \<le> m \<Longrightarrow> argmax_from (map Fin vs) idx (Fin m) mi = mi"
  by (induction vs arbitrary: idx) auto

lemma argmax_first:
  assumes "\<forall>x\<in>set rest. x \<le> m"
  shows "argmax (map Fin (m # rest)) = Inr 0"
  using argmax_from_keeps[OF assms] by (simp add: argmax_def)

lemma objective_bound:
  fixes row :: "real list" and p v :: real
  assumes "0 \<le> p" "p \<le> 1" and "sum_list (map (\<lambda>b. b\<^sup>2) row) \<noteq> 0"
  shows "p * ((v * sum_list row)\<^sup>2 / sum_list (map (\<lambda>b. b\<^sup>2) row)) \<le> real (length row) * v\<^sup>2"
proof -
  define Q where "Q = sum_list (map (\<lambda>b. b\<^sup>2) row)"
  define S where "S = sum_list row"
  have "0 \<le> Q" unfolding Q_def by (rule sum_list_nonneg) auto
  then have Qp: "0 < Q" using assms(3) unfolding Q_def by simp
  have cs: "S\<^sup>2 \<le> real (length row) * Q" unfolding S_def Q_def by (rule sum_list_square_le)
  have "(v * S)\<^sup>2 = v\<^sup>2 * S\<^sup>2" by (simp add: power_mult_distrib)
  also have "\<dots> \<le> v\<^sup>2 * (real (length row) * Q)" using cs by (intro mult_left_mono) auto
  finally have "(v * S)\<^sup>2 / Q \<le> real (length row) * v\<^sup>2"
    using Qp by (simp add: pos_divide_le_eq mult.commute mult.left_commute)
  moreover have t0: "0 \<le> (v * S)\<^sup>2 / Q" using Qp by simp
  moreover have "p * ((v * S)\<^sup>2 / Q) \<le> 1 * ((v * S)\<^sup>2 / Q)"
    using assms(2) t0 by (intro mult_right_mono) auto
  ultimately show ?thesis unfolding Q_def S_def by simp
qed

lemma map2_same: "map2 f (map g xs) (map h xs) = map (\<lambda>x. f (g x) (h x)) xs"
  by (induction xs) auto

lemma map2_fmul_Fin: "map2 fmul (map Fin ps) (map Fin ts) = map Fin (map2 (*) ps ts)"
  by (induction ps arbitrary: ts) (auto split: list.splits simp: zip_Cons1)

lemma fsmr_dc_generic:
  fixes a v :: real
  assumes a: "a \<noteq> 0" and N: "0 < N"
    and rows: "\<forall>row\<in>set rest. length row = N"
    and en: "\<forall>row\<in>set rest. sum_list (map (\<lambda>b. b\<^sup>2) row) \<noteq> 0"
    and lp: "length prest = length rest"
    and ph: "\<forall>p\<in>set prest. 0 \<le> p \<and> p \<le> 1"
  shows "fsmr (replicate N v) (N, replicate N a # rest) (replicate N 1) (map Fin (1 # prest)) 1 1
         = Inr ((v / a) # replicate (length rest) 0)"
proof -
  define r0 where "r0 = replicate N a"
  define allrows where "allrows = r0 # rest"
  define S where "S = (\<lambda>row :: real list. sum_list row)"
  define Q where "Q = (\<lambda>row :: real list. sum_list (map (\<lambda>b. b\<^sup>2) row))"
  define t where "t = (\<lambda>row. (v * S row)\<^sup>2 / Q row)"
  have lr: "\<forall>row\<in>set allrows. length row = N" unfolding allrows_def r0_def using rows by simp
  have S0: "S r0 = real N * a" unfolding S_def r0_def by (simp add: sum_list_replicate)
  have Q0: "Q r0 = real N * a\<^sup>2" unfolding Q_def r0_def by (simp add: sum_list_replicate)
  have Q0nz: "Q r0 \<noteq> 0" unfolding Q0 using a N by simp
  have Qnz: "\<forall>row\<in>set allrows. Q row \<noteq> 0"
    unfolding allrows_def using Q0nz en by (simp add: Q_def)
  have t0: "t r0 = real N * v\<^sup>2"
    unfolding t_def S0 Q0 using a N by (simp add: power2_eq_square field_simps)
  \<comment> \<open>the vectors computed before and inside the loop\<close>
  define D where "D = map (\<lambda>row. dot_vec (map (\<lambda>b. b\<^sup>2) row) (replicate N 1)) allrows"
  have D: "D = map Q allrows"
    unfolding D_def Q_def using lr by (intro map_cong refl dot_vec_ones) simp
  have b1: "broadcast (*) (replicate N v) (replicate N (1::real)) = Inr (replicate N v)"
    by (simp add: broadcast_same zip_replicate)
  define pr where "pr = map (\<lambda>row. dot_vec row (replicate N v)) allrows"
  have pr: "pr = map (\<lambda>row. v * S row) allrows"
    unfolding pr_def S_def using lr by (intro map_cong refl dot_vec_const) simp
  have X: "map2 fdiv (map (\<lambda>p. p\<^sup>2) pr) D = map Fin (map t allrows)"
  proof -
    have "map2 fdiv (map (\<lambda>p. p\<^sup>2) pr) D = map (\<lambda>row. fdiv ((v * S row)\<^sup>2) (Q row)) allrows"
      unfolding pr D map_map comp_def by (rule map2_same)
    also have "\<dots> = map (\<lambda>row. Fin (t row)) allrows"
      using Qnz by (intro map_cong refl) (simp add: fdiv_def t_def)
    finally show ?thesis by (simp add: comp_def)
  qed
  define vals where "vals = map2 (*) prest (map t rest)"
  have obj: "broadcast fmul (map Fin (1 # prest)) (map2 fdiv (map (\<lambda>p. p\<^sup>2) pr) D)
             = Inr (map Fin (t r0 # vals))"
  proof -
    have "broadcast fmul (map Fin (1 # prest)) (map Fin (map t allrows))
          = Inr (map2 fmul (map Fin (1 # prest)) (map Fin (map t allrows)))"
      using lp by (intro broadcast_same) (simp add: allrows_def)
    also have "map2 fmul (map Fin (1 # prest)) (map Fin (map t allrows))
               = map Fin (map2 (*) (1 # prest) (map t allrows))"
      by (rule map2_fmul_Fin)
    also have "map2 (*) (1 # prest) (map t allrows) = t r0 # vals"
      unfolding allrows_def vals_def by simp
    finally show ?thesis unfolding X .
  qed
  have le: "\<forall>x\<in>set vals. x \<le> t r0"
  proof
    fix x assume "x \<in> set vals"
    then obtain p row where pr': "(p, row) \<in> set (zip prest rest)" and x: "x = p * t row"
      unfolding vals_def by (auto simp: zip_map2)
    have p: "0 \<le> p" "p \<le> 1" using ph set_zip_leftD[OF pr'] by auto
    have row: "row \<in> set rest" using set_zip_rightD[OF pr'] .
    have "p * ((v * sum_list row)\<^sup>2 / sum_list (map (\<lambda>b. b\<^sup>2) row)) \<le> real (length row) * v\<^sup>2"
      using p en row by (intro objective_bound) auto
    then have "x \<le> real N * v\<^sup>2" unfolding x t_def S_def Q_def using rows row by simp
    then show "x \<le> t r0" unfolding t0 .
  qed
  have am: "argmax (map Fin (t r0 # vals)) = Inr 0" using le by (rule argmax_first)
  have pr0: "pr ! 0 = v * (real N * a)" unfolding pr allrows_def using S0 by simp
  have D0: "D ! 0 = real N * a\<^sup>2" unfolding D allrows_def using Q0 by simp
  have c: "pr ! 0 / D ! 0 = v / a"
    unfolding pr0 D0 using a N by (simp add: power2_eq_square field_simps)
  have lpr: "length pr = Suc (length rest)" unfolding pr_def allrows_def by simp
  have b3: "broadcast (-) (replicate N v) (map (\<lambda>b. 1 * b * (v / a)) (allrows ! 0))
            = Inr (map2 (-) (replicate N v) (map (\<lambda>b. 1 * b * (v / a)) (allrows ! 0)))"
    by (intro broadcast_same) (simp add: allrows_def r0_def)
  have D0nz: "D ! 0 \<noteq> 0" unfolding D0 using a N by simp
  have step: "fsmr_step (N, allrows) (replicate N 1) (map Fin (1 # prest)) D 1
                (replicate (Suc (length rest)) 0, replicate N v)
              = Inr ((v / a) # replicate (length rest) 0,
                     map2 (-) (replicate N v) (map (\<lambda>b. 1 * b * (v / a)) (allrows ! 0)))"
    unfolding fsmr_step_def prod.case fst_conv snd_conv b1 sum.case Let_def
      pr_def[symmetric] obj am
    using lpr D0nz c b3 by simp
  have "fsmr (replicate N v) (N, allrows) (replicate N 1) (map Fin (1 # prest)) 1 1
        = Inr ((v / a) # replicate (length rest) 0)"
    unfolding fsmr_def fst_conv snd_conv Let_def D_def[symmetric]
    using step by (simp add: allrows_def)
  then show ?thesis unfolding allrows_def r0_def .
qed

lemma squares_nonzero:
  fixes row :: "real list"
  assumes "\<exists>b\<in>set row. b \<noteq> 0"
  shows "sum_list (map (\<lambda>b. b\<^sup>2) row) \<noteq> 0"
  using energy_nonzero[OF refl assms] dot_vec_ones[of "map (\<lambda>b. b\<^sup>2) row" "length row"] by simp

lemma fsmr_constant_signal:
  assumes K: "1 \<le> K" and sig: "0 < sigma" "sigma \<le> 1"
    and en: "\<forall>k<nat K. \<forall>l<nat K. \<exists>(xn, yn)\<in>set mesh.
               cos ((pi / real_of_int K) * (yn - 0.5) * real k)
                 * cos ((pi / real_of_int K) * (xn - 0.5) * real l) \<noteq> 0"
    and B: "dct_basis_dict (map fst mesh) (map snd mesh) K = Inr B"
    and F: "dct_frequency_weighting K sigma = Inr f"
  shows "snd B ! 0 = replicate (length mesh) (2 / real_of_int K)
       \<and> fsmr (replicate (length mesh) v) B (replicate (length mesh) 1) f 1 1
         = Inr ((v / (2 / real_of_int K)) # replicate (nat K * nat K - 1) 0)"
proof -
  define g where "g = (\<lambda>(k :: nat, l :: nat).
                       map (\<lambda>(xn, yn).
                          cos ((pi / real_of_int K) * (yn - 0.5) * real k)
                            * cos ((pi / real_of_int K) * (xn - 0.5) * real l)
                            * weights (real_of_int K) (if k = 0 then 1 else 0) (if l = 0 then 1 else 0))
                         mesh)"
  have K0: "0 \<le> K" and Kr: "real_of_int K \<noteq> 0" and Kn: "0 < nat K" using K by auto
  obtain kl where kl: "index_pairs (nat K) = (0, 0) # kl" using index_pairs_head[OF Kn] by blast
  have lkl: "length kl = nat K * nat K - 1"
    using index_pairs_length[of "nat K"] unfolding kl by simp
  have Beq: "B = (length mesh, map g (index_pairs (nat K)))"
    using B unfolding dct_basis_dict_mesh[OF K] g_def by simp
  have cm: "map (\<lambda>(xn, yn). c) mesh = replicate (length mesh) c" for c :: real
    by (induction mesh) auto
  have g0: "g (0, 0) = replicate (length mesh) (2 / real_of_int K)"
    unfolding g_def by (simp add: weights_def cm)
  have Brows: "B = (length mesh, replicate (length mesh) (2 / real_of_int K) # map g kl)"
    unfolding Beq kl using g0 by simp
  obtain xn yn where "(xn, yn) \<in> set mesh" using en Kn by blast
  then have N: "0 < length mesh" by (cases mesh) auto
  have a: "2 / real_of_int K \<noteq> 0" using Kr by simp
  have rl: "\<forall>row\<in>set (map g kl). length row = length mesh" by (auto simp: g_def)
  have nz: "\<forall>row\<in>set (snd B). \<exists>b\<in>set row. b \<noteq> 0"
    using dct_rows_nonzero[OF K en, of "fst B" "snd B"] B by simp
  have ren: "\<forall>row\<in>set (map g kl). sum_list (map (\<lambda>b. b\<^sup>2) row) \<noteq> 0"
  proof
    fix row assume "row \<in> set (map g kl)"
    then have "row \<in> set (snd B)" unfolding Brows by simp
    then have "\<exists>b\<in>set row. b \<noteq> 0" using nz by blast
    then show "sum_list (map (\<lambda>b. b\<^sup>2) row) \<noteq> 0" by (rule squares_nonzero)
  qed
  define phi where "phi = (\<lambda>(k :: nat, l :: nat).
      if sqrt ((real k)\<^sup>2 + (real l)\<^sup>2) = 0 then 1
      else sigma powr sqrt ((real k)\<^sup>2 + (real l)\<^sup>2))"
  have phi: "np_power sigma (sqrt ((real k)\<^sup>2 + (real l)\<^sup>2)) = Fin (phi (k, l))
             \<and> 0 \<le> phi (k, l) \<and> phi (k, l) \<le> 1" for k l
  proof -
    have "sigma powr sqrt ((real k)\<^sup>2 + (real l)\<^sup>2) \<le> 1"
      using sig by (intro powr_le1) auto
    then show ?thesis unfolding phi_def prod.case using sig(1) by (simp add: np_power_def)
  qed
  have f0: "np_power sigma (sqrt ((real (0::nat))\<^sup>2 + (real (0::nat))\<^sup>2)) = Fin 1"
    by (simp add: np_power_def)
  have "f = Fin 1 # map (\<lambda>(k, l). np_power sigma (sqrt ((real k)\<^sup>2 + (real l)\<^sup>2))) kl"
    using F unfolding dct_frequency_weighting_nonneg[OF K0] kl using f0 by simp
  also have "map (\<lambda>(k, l). np_power sigma (sqrt ((real k)\<^sup>2 + (real l)\<^sup>2))) kl
             = map Fin (map phi kl)"
    using phi by (auto simp: case_prod_beta)
  finally have feq: "f = map Fin (1 # map phi kl)" by simp
  have lp: "length (map phi kl) = length (map g kl)" by simp
  have ph: "\<forall>p\<in>set (map phi kl). 0 \<le> p \<and> p \<le> 1" using phi by auto
  have "fsmr (replicate (length mesh) v)
          (length mesh, replicate (length mesh) (2 / real_of_int K) # map g kl)
          (replicate (length mesh) 1) (map Fin (1 # map phi kl)) 1 1
        = Inr ((v / (2 / real_of_int K)) # replicate (length (map g kl)) 0)"
    using a N rl ren lp ph by (rule fsmr_dc_generic)
  then have "fsmr (replicate (length mesh) v) B (replicate (length mesh) 1) f 1 1
         = Inr ((v / (2 / real_of_int K)) # replicate (nat K * nat K - 1) 0)"
    unfolding Brows feq using lkl by simp
  moreover have "snd B ! 0 = replicate (length mesh) (2 / real_of_int K)"
    unfolding Brows by simp
  ultimately show ?thesis by simp
qed

lemma dct_basis_dict_projr:
  assumes "1 \<le> K" and "length x = length y"
  shows "dct_basis_dict x y K = Inr (projr (dct_basis_dict x y K))"
  using dct_basis_dict_shape[OF assms] by auto

lemma dct_frequency_weighting_projr:
  assumes "0 \<le> K"
  shows "dct_frequency_weighting K sigma = Inr (projr (dct_frequency_weighting K sigma))"
  by (simp add: dct_frequency_weighting_nonneg[OF assms])

lemma first_atom_two_points:
  "snd (projr (dct_basis_dict [1/2, 3/2] [1/2, 1/2] 4)) ! 0 = [1/2, 1/2]"
proof -
  have K: "(1::int) \<le> 4" by simp
  obtain kl where kl: "index_pairs (nat 4) = (0, 0) # kl"
    using index_pairs_head[of "nat 4"] by auto
  have "dct_basis_dict (map fst [(1/2 :: real, 1/2 :: real), (3/2, 1/2)])
          (map snd [(1/2 :: real, 1/2 :: real), (3/2, 1/2)]) 4
        = Inr (length [(1/2 :: real, 1/2 :: real), (3/2, 1/2)],
               map (\<lambda>(k, l).
                       map (\<lambda>(xn, yn).
                          cos ((pi / real_of_int 4) * (yn - 0.5) * real k)
                            * cos ((pi / real_of_int 4) * (xn - 0.5) * real l)
                            * weights (real_of_int 4) (if k = 0 then 1 else 0) (if l = 0 then 1 else 0))
                         [(1/2, 1/2), (3/2, 1/2)])
                    (index_pairs (nat 4)))"
    using K by (rule dct_basis_dict_mesh)
  then show ?thesis unfolding kl by (simp add: weights_def)
qed

text \<open>
  Claim C6, as the code has it.  The atom of the frequency pair \<open>(0, 0)\<close> is constant on the
  mesh, with a value \<open>a \<noteq> 0\<close>.  For a constant signal \<open>v\<close> on a mesh on which every atom
  is non-zero somewhere, with all-ones spatial weights, the frequency weights of a decay
  \<open>0 < \<sigma> \<le> 1\<close>, \<open>\<gamma> = 1\<close> and one iteration, \<open>fsmr\<close> returns the coefficient \<open>v / a\<close> at
  \<open>(0, 0)\<close>, the signal divided by the constant atom, and 0 everywhere else.
\<close>

theorem fsmr_dc:
  assumes K: "1 \<le> K" and sig: "0 < sigma" "sigma \<le> 1"
    and en: "\<forall>k<nat K. \<forall>l<nat K. \<exists>(xn, yn)\<in>set mesh.
               cos ((pi / real_of_int K) * (yn - 0.5) * real k)
                 * cos ((pi / real_of_int K) * (xn - 0.5) * real l) \<noteq> 0"
    and B: "dct_basis_dict (map fst mesh) (map snd mesh) K = Inr B"
    and F: "dct_frequency_weighting K sigma = Inr f"
  shows "\<exists>a. a \<noteq> 0 \<and> snd B ! 0 = replicate (length mesh) a
           \<and> fsmr (replicate (length mesh) v) B (replicate (length mesh) 1) f 1 1
             = Inr ((v / a) # replicate (nat K * nat K - 1) 0)"
proof (intro exI[of _ "2 / real_of_int K"] conjI)
  show "2 / real_of_int K \<noteq> 0" using K by simp
  show "snd B ! 0 = replicate (length mesh) (2 / real_of_int K)"
    using fsmr_constant_signal[OF K sig en B F] by (rule conjunct1)
  show "fsmr (replicate (length mesh) v) B (replicate (length mesh) 1) f 1 1
        = Inr ((v / (2 / real_of_int K)) # replicate (nat K * nat K - 1) 0)"
    using fsmr_constant_signal[OF K sig en B F] by (rule conjunct2)
qed

theorem fsmr_dc_witness:
  "fsmr [3, 3] (projr (dct_basis_dict [1/2, 3/2] [1/2, 1/2] 4)) [1, 1]
     (projr (dct_frequency_weighting 4 (1/2))) 1 1
   = Inr (6 # replicate 15 0)"
proof -
  have K: "(1::int) \<le> 4" and s: "(0::real) < 1/2" "(1/2 :: real) \<le> 1" by simp_all
  have en: "\<forall>k<nat 4. \<forall>l<nat 4. \<exists>(xn, yn)\<in>set [(1/2 :: real, 1/2 :: real), (3/2, 1/2)].
               cos ((pi / real_of_int 4) * (yn - 0.5) * real k)
                 * cos ((pi / real_of_int 4) * (xn - 0.5) * real l) \<noteq> 0"
    by simp
  have B: "dct_basis_dict (map fst [(1/2 :: real, 1/2 :: real), (3/2, 1/2)])
             (map snd [(1/2 :: real, 1/2 :: real), (3/2, 1/2)]) 4
           = Inr (projr (dct_basis_dict [1/2, 3/2] [1/2, 1/2] 4))"
    using dct_basis_dict_projr[of 4 "[1/2, 3/2]" "[1/2, 1/2]"] by simp
  have F: "dct_frequency_weighting 4 (1/2) = Inr (projr (dct_frequency_weighting 4 (1/2)))"
    by (rule dct_frequency_weighting_projr) simp
  obtain a where a: "snd (projr (dct_basis_dict [1/2, 3/2] [1/2, 1/2] 4)) ! 0
                     = replicate (length [(1/2 :: real, 1/2 :: real), (3/2, 1/2)]) a"
      and r: "fsmr (replicate (length [(1/2 :: real, 1/2 :: real), (3/2, 1/2)]) 3)
                (projr (dct_basis_dict [1/2, 3/2] [1/2, 1/2] 4))
                (replicate (length [(1/2 :: real, 1/2 :: real), (3/2, 1/2)]) 1)
                (projr (dct_frequency_weighting 4 (1/2))) 1 1
              = Inr ((3 / a) # replicate (nat 4 * nat 4 - 1) 0)"
    using fsmr_dc[OF K s en B F, of 3] by blast
  have a2: "a = 1/2" using a unfolding first_atom_two_points by simp
  show ?thesis using r unfolding a2 by (simp add: numeral_2_eq_2)
qed

text \<open>
  Claim C6 as stated gives the coefficient \<open>v\<close> at \<open>(0, 0)\<close>.  For the transform length 4,
  the mesh of the two points \<open>(1/2, 1/2)\<close> and \<open>(3/2, 1/2)\<close>, the decay \<open>1/2\<close> and the
  constant signal 1, the atom \<open>(0, 0)\<close> is the constant \<open>1/2\<close> and the coefficient is 2.
  The coefficient is 1 only for an atom of the value 1, and no weight of the table of
  \<open>dct_basis_dict\<close> is 1 for the transform length 4.
\<close>

theorem fsmr_dc_counterexample:
  "\<not> isl (dct_basis_dict [1/2, 3/2] [1/2, 1/2] 4)
   \<and> \<not> isl (dct_frequency_weighting 4 (1/2))
   \<and> snd (projr (dct_basis_dict [1/2, 3/2] [1/2, 1/2] 4)) ! 0 = [1/2, 1/2]
   \<and> fsmr [1, 1] (projr (dct_basis_dict [1/2, 3/2] [1/2, 1/2] 4)) [1, 1]
       (projr (dct_frequency_weighting 4 (1/2))) 1 1
     = Inr (2 # replicate 15 0)
   \<and> (2::real) \<noteq> 1"
proof -
  have K: "(1::int) \<le> 4" and s: "(0::real) < 1/2" "(1/2 :: real) \<le> 1" by simp_all
  have en: "\<forall>k<nat 4. \<forall>l<nat 4. \<exists>(xn, yn)\<in>set [(1/2 :: real, 1/2 :: real), (3/2, 1/2)].
               cos ((pi / real_of_int 4) * (yn - 0.5) * real k)
                 * cos ((pi / real_of_int 4) * (xn - 0.5) * real l) \<noteq> 0"
    by simp
  have B: "dct_basis_dict (map fst [(1/2 :: real, 1/2 :: real), (3/2, 1/2)])
             (map snd [(1/2 :: real, 1/2 :: real), (3/2, 1/2)]) 4
           = Inr (projr (dct_basis_dict [1/2, 3/2] [1/2, 1/2] 4))"
    using dct_basis_dict_projr[of 4 "[1/2, 3/2]" "[1/2, 1/2]"] by simp
  have F: "dct_frequency_weighting 4 (1/2) = Inr (projr (dct_frequency_weighting 4 (1/2)))"
    by (rule dct_frequency_weighting_projr) simp
  have i1: "\<not> isl (dct_basis_dict [1/2, 3/2] [1/2, 1/2] 4)"
    using dct_basis_dict_projr[of 4 "[1/2, 3/2]" "[1/2, 1/2]"] by (metis Nat.add_0_right One_nat_def add_Suc_right isl_def length_Cons list.size(3) sum.disc(2) K)
  have i2: "\<not> isl (dct_frequency_weighting 4 (1/2))"
    using F by (metis sum.disc(2))
  have r: "fsmr (replicate (length [(1/2 :: real, 1/2 :: real), (3/2, 1/2)]) 1)
                (projr (dct_basis_dict [1/2, 3/2] [1/2, 1/2] 4))
                (replicate (length [(1/2 :: real, 1/2 :: real), (3/2, 1/2)]) 1)
                (projr (dct_frequency_weighting 4 (1/2))) 1 1
              = Inr ((1 / (2 / real_of_int 4)) # replicate (nat 4 * nat 4 - 1) 0)"
    using fsmr_constant_signal[OF K s en B F, of 1] by (rule conjunct2)
  have r': "fsmr [1, 1] (projr (dct_basis_dict [1/2, 3/2] [1/2, 1/2] 4)) [1, 1]
       (projr (dct_frequency_weighting 4 (1/2))) 1 1
     = Inr (2 # replicate 15 0)"
    using r by (simp add: numeral_2_eq_2)
  show ?thesis using i1 i2 first_atom_two_points r' by simp
qed

end
